(* ===== verification/Prelude.thy ===== *)
theory Prelude
  imports Main "HOL-Library.Word" "HOL-Library.Char_ord" "HOL-Library.List_Lexorder"
    "HOL-Library.Multiset"
begin

text \<open>
  Shared vocabulary of the development: the widths of the program's integers, the ways a C++
  operation can go wrong as values (\<open>cpp_error\<close>), the result type with its sequencing
  operator, transition systems with the locale that turns a per-step invariant into an invariant
  of the reachable states, and generic facts on lists that several components use.
\<close>

section \<open>Integers and failures\<close>

type_synonym u8 = "8 word"
type_synonym u16 = "16 word"
type_synonym u32 = "32 word"
type_synonym u64 = "64 word"

text \<open>
  Operations with undefined behaviour and uncaught exceptions end the normal execution of the
  program; the model makes each of them a value, so that no theorem about a normal result can
  rest on them.
\<close>

datatype cpp_error =
    BufferOverflow              \<comment> \<open>write past the end of a char array\<close>
  | BufferOverread              \<comment> \<open>a C string without terminator\<close>
  | UninitialisedRead           \<comment> \<open>use of an indeterminate value\<close>
  | MissingReturn               \<comment> \<open>use of the value of a call that ran off its end\<close>
  | DanglingIterator            \<comment> \<open>use of an iterator that a change of its vector invalidated\<close>
  | IndexOutOfRange             \<comment> \<open>operator[] past the end of a vector\<close>
  | NullDereference             \<comment> \<open>member access through a null pointer\<close>
  | IntOverflow                 \<comment> \<open>atoi of a number outside int\<close>
  | OutOfRange                  \<comment> \<open>uncaught std::out_of_range\<close>
  | InvalidArgument string      \<comment> \<open>uncaught std::invalid_argument\<close>

type_synonym 'a res = "cpp_error + 'a"

fun res_bind :: "'a res \<Rightarrow> ('a \<Rightarrow> 'b res) \<Rightarrow> 'b res" where
  "res_bind (Inl e) f = Inl e"
| "res_bind (Inr a) f = f a"

named_theorems res_simps "results of sequenced operations"
named_theorems inv_rules "preservation of the components' invariants"

lemma res_bind_Inr_conv [res_simps]:
  "res_bind m f = Inr b \<longleftrightarrow> (\<exists>a. m = Inr a \<and> f a = Inr b)"
  by (cases m) auto

lemma res_bind_Inl_conv [res_simps]:
  "res_bind m f = Inl e \<longleftrightarrow> m = Inl e \<or> (\<exists>a. m = Inr a \<and> f a = Inl e)"
  by (cases m) auto

lemma res_bind_assoc: "res_bind (res_bind m f) g = res_bind m (\<lambda>a. res_bind (f a) g)"
  by (cases m) auto

lemma res_bind_cong [fundef_cong]:
  "m = m' \<Longrightarrow> (\<And>a. m' = Inr a \<Longrightarrow> f a = f' a) \<Longrightarrow> res_bind m f = res_bind m' f'"
  by (cases m') auto

lemma res_bind_InrE:
  assumes "res_bind m f = Inr b"
  obtains a where "m = Inr a" and "f a = Inr b"
  using assms by (cases m) auto

text \<open>A loop whose body can fail: the failure of one round ends the loop.\<close>

fun res_fold :: "('a \<Rightarrow> 's \<Rightarrow> 's res) \<Rightarrow> 'a list \<Rightarrow> 's \<Rightarrow> 's res" where
  "res_fold f [] s = Inr s"
| "res_fold f (x # xs) s = res_bind (f x s) (res_fold f xs)"

lemma res_fold_Inr: "res_fold (\<lambda>x. Inr) xs s = Inr s"
  by (induction xs) auto

lemma res_fold_append: "res_fold f (xs @ ys) s = res_bind (res_fold f xs s) (res_fold f ys)"
proof (induction xs arbitrary: s)
  case Nil
  then show ?case by simp
next
  case (Cons x xs)
  then show ?case by (cases "f x s") auto
qed

lemma res_fold_invariant:
  assumes "res_fold f xs s = Inr t" and "P s"
    and "\<And>x s t. x \<in> set xs \<Longrightarrow> P s \<Longrightarrow> f x s = Inr t \<Longrightarrow> P t"
  shows "P t"
  using assms
proof (induction xs arbitrary: s)
  case Nil
  then show ?case by simp
next
  case (Cons x xs)
  from Cons.prems(1) obtain u where u: "f x s = Inr u" and rest: "res_fold f xs u = Inr t"
    by (auto elim: res_bind_InrE)
  have "P u" using Cons.prems(2,3) u by auto
  with rest show ?case using Cons.prems(3) by (intro Cons.IH) auto
qed

lemma res_fold_total:
  assumes "P s" and "\<And>x s. x \<in> set xs \<Longrightarrow> P s \<Longrightarrow> \<exists>t. f x s = Inr t \<and> P t"
  shows "\<exists>t. res_fold f xs s = Inr t \<and> P t"
  using assms
proof (induction xs arbitrary: s)
  case Nil
  then show ?case by simp
next
  case (Cons x xs)
  obtain u where u: "f x s = Inr u" "P u" using Cons.prems by auto
  then have "\<exists>t. res_fold f xs u = Inr t \<and> P t" using Cons.prems(2) by (intro Cons.IH) auto
  with u show ?case by simp
qed

lemma res_fold_fails:
  assumes "res_fold f xs s = Inl e" and "\<And>x s. x \<in> set xs \<Longrightarrow> f x s = Inl e \<Longrightarrow> P e"
  shows "P e"
  using assms
proof (induction xs arbitrary: s)
  case Nil
  then show ?case by simp
next
  case (Cons x xs)
  then show ?case by (cases "f x s") auto
qed

section \<open>Transition systems\<close>

inductive reachable :: "('s \<Rightarrow> bool) \<Rightarrow> ('s \<Rightarrow> 's \<Rightarrow> bool) \<Rightarrow> 's \<Rightarrow> bool"
  for init :: "'s \<Rightarrow> bool" and step :: "'s \<Rightarrow> 's \<Rightarrow> bool" where
  reach_init: "init s \<Longrightarrow> reachable init step s"
| reach_step: "reachable init step s \<Longrightarrow> step s t \<Longrightarrow> reachable init step t"

lemma reachable_trans:
  assumes "reachable (\<lambda>x. x = s) step t" and "reachable init step s"
  shows "reachable init step t"
  using assms by (induction rule: reachable.induct) (auto intro: reachable.intros)

locale transition_invariant =
  fixes init :: "'s \<Rightarrow> bool" and step :: "'s \<Rightarrow> 's \<Rightarrow> bool" and inv :: "'s \<Rightarrow> bool"
  assumes inv_init: "init s \<Longrightarrow> inv s"
    and inv_step: "inv s \<Longrightarrow> step s t \<Longrightarrow> inv t"
begin

lemma reachable_inv: "reachable init step s \<Longrightarrow> inv s"
  by (induction rule: reachable.induct) (auto intro: inv_init inv_step)

end

section \<open>Lists\<close>

lemma takeWhile_all: "(\<And>x. x \<in> set xs \<Longrightarrow> P x) \<Longrightarrow> takeWhile P (xs @ y # ys) = xs @ takeWhile P (y # ys)"
  by (induction xs) auto

lemma takeWhile_stop: "(\<And>x. x \<in> set xs \<Longrightarrow> P x) \<Longrightarrow> \<not> P y \<Longrightarrow> takeWhile P (xs @ y # ys) = xs"
  by (induction xs) auto

lemma dropWhile_stop: "(\<And>x. x \<in> set xs \<Longrightarrow> P x) \<Longrightarrow> \<not> P y \<Longrightarrow> dropWhile P (xs @ y # ys) = y # ys"
  by (induction xs) auto

lemma dropWhile_skip: "(\<And>x. x \<in> set xs \<Longrightarrow> P x) \<Longrightarrow> dropWhile P (xs @ ys) = dropWhile P ys"
  by (induction xs) auto

lemma dropWhile_head: "\<not> P y \<Longrightarrow> dropWhile P (y # ys) = y # ys"
  by simp

lemma takeWhile_id: "(\<And>x. x \<in> set xs \<Longrightarrow> P x) \<Longrightarrow> takeWhile P xs = xs"
  by simp

lemma dropWhile_none: "(\<And>x. x \<in> set xs \<Longrightarrow> P x) \<Longrightarrow> dropWhile P xs = []"
  by simp

lemma length_dropWhile_lt: "xs \<noteq> [] \<Longrightarrow> P (hd xs) \<Longrightarrow> length (dropWhile P xs) < length xs"
  by (cases xs) (auto simp: le_imp_less_Suc length_dropWhile_le)

lemma find_Some_filter: "List.find P xs = (case filter P xs of [] \<Rightarrow> None | x # _ \<Rightarrow> Some x)"
  by (induction xs) auto

lemma sorted_wrt_concat:
  "sorted_wrt R (concat xss) \<longleftrightarrow> (\<forall>xs \<in> set xss. sorted_wrt R xs) \<and>
    sorted_wrt (\<lambda>xs ys. \<forall>x \<in> set xs. \<forall>y \<in> set ys. R x y) xss"
  by (induction xss) (auto simp: sorted_wrt_append)

lemma sorted_key_unique:
  fixes f :: "'a \<Rightarrow> 'k::linorder"
  assumes "mset xs = mset ys" and "sorted (map f xs)" and "sorted (map f ys)"
    and "distinct (map f xs)"
  shows "xs = ys"
proof -
  have inj: "inj_on f (set xs)" using assms(4) by (simp add: distinct_map)
  have set: "set ys = set xs" using assms(1) by (metis set_mset_mset)
  have "mset (map f xs) = mset (map f ys)" using assms(1) by (metis mset_map)
  then have "map f xs = map f ys" using assms(2,3) by (metis sorted_list_of_multiset_mset sorted_sort_id)
  moreover have "inj_on f (set xs \<union> set ys)" using inj set by simp
  ultimately show ?thesis by (simp add: inj_on_map_eq_map)
qed

end
