(* ===== verification/Cxx_Std.thy ===== *)
theory Cxx_Std
  imports Prelude
begin

text \<open>
  What the sources use of the C and C++ standard libraries: character classes, C strings and
  \<open>strcpy\<close>, \<open>std::getline\<close> loops, whitespace-delimited extraction from input streams
  with their \<open>eofbit\<close> and \<open>failbit\<close>, decimal numbers in both directions, and
  \<open>std::map\<close> as a list of entries in key order.  The interface of the map is the locale
  \<open>ordered_map\<close>, which the session table and the profile loader rely on.
\<close>

section \<open>Characters and C strings\<close>

definition NUL :: char where
  "NUL = CHR 0x00"

text \<open>\<open>isspace\<close> in the C locale: blank, tab, line feed, vertical tab, form feed, return.\<close>

definition isspace :: "char \<Rightarrow> bool" where
  "isspace c \<longleftrightarrow> c = CHR '' '' \<or> c = CHR 0x09 \<or> c = CHR 0x0A \<or> c = CHR 0x0B \<or> c = CHR 0x0C \<or> c = CHR 0x0D"

text \<open>The characters of a \<open>std::string\<close> that a C function sees through \<open>c_str()\<close>.\<close>

definition c_str :: "string \<Rightarrow> string" where
  "c_str s = takeWhile (\<lambda>c. c \<noteq> NUL) s"

text \<open>
  \<open>strcpy(dst, src.c_str())\<close> into a char array holding \<open>dst\<close>: the characters, the
  terminator, and the rest of the array as it was.
\<close>

definition strcpy :: "string \<Rightarrow> string \<Rightarrow> string res" where
  "strcpy dst src =
     (let s = c_str src in
      if length s < length dst then Inr (s @ NUL # drop (Suc (length s)) dst)
      else Inl BufferOverflow)"

text \<open>\<open>std::string(const char*)\<close> on a char array: reads up to the first terminator.\<close>

definition string_of_array :: "string \<Rightarrow> string res" where
  "string_of_array buf = (if NUL \<in> set buf then Inr (c_str buf) else Inl BufferOverread)"

section \<open>Splitting and reading text\<close>

text \<open>
  One \<open>std::getline(ss, tok, delim)\<close>: the token and the rest of the stream, or nothing when
  the stream is at its end (which is what ends the \<open>while\<close> loops of the sources).
\<close>

definition getline :: "char \<Rightarrow> string \<Rightarrow> (string \<times> string) option" where
  "getline d s =
     (if s = [] then None
      else Some (takeWhile (\<lambda>c. c \<noteq> d) s, tl (dropWhile (\<lambda>c. c \<noteq> d) s)))"

lemma getline_shorter: "getline d s = Some (tok, rest) \<Longrightarrow> length rest < length s"
proof -
  assume "getline d s = Some (tok, rest)"
  then have "s \<noteq> []" and "rest = tl (dropWhile (\<lambda>c. c \<noteq> d) s)"
    by (auto simp: getline_def split: if_splits)
  moreover have "length (dropWhile (\<lambda>c. c \<noteq> d) s) \<le> length s" by (rule length_dropWhile_le)
  ultimately show ?thesis by (cases s) (auto split: if_splits)
qed

function getlines :: "char \<Rightarrow> string \<Rightarrow> string list" where
  "getlines d s = (case getline d s of None \<Rightarrow> [] | Some (tok, rest) \<Rightarrow> tok # getlines d rest)"
  by pat_completeness auto
termination
  by (relation "measure (\<lambda>(d, s). length s)") (auto dest: getline_shorter)

declare getlines.simps [simp del]

text \<open>All words that \<open>operator>>\<close> extracts from a stream, as \<open>istream_iterator\<close> does.\<close>

function words :: "string \<Rightarrow> string list" where
  "words s =
     (case dropWhile isspace s of
        [] \<Rightarrow> []
      | c # cs \<Rightarrow> takeWhile (\<lambda>c. \<not> isspace c) (c # cs) # words (dropWhile (\<lambda>c. \<not> isspace c) (c # cs)))"
  by pat_completeness auto
termination
proof (relation "measure length", simp)
  fix s c cs
  assume d: "dropWhile isspace s = c # cs"
  have "\<not> isspace c" using d by (metis hd_dropWhile list.distinct(1) list.sel(1))
  then have "length (dropWhile (\<lambda>c. \<not> isspace c) (c # cs)) < length (c # cs)"
    by (intro length_dropWhile_lt) auto
  also have "length (c # cs) \<le> length s" using d length_dropWhile_le by metis
  finally show "(dropWhile (\<lambda>c. \<not> isspace c) (c # cs), s) \<in> measure length" by simp
qed

declare words.simps [simp del]

text \<open>Input streams: what is left to read and the two state bits the sources depend on.\<close>

record istream =
  rest :: string
  eofbit :: bool
  failbit :: bool

definition good :: "istream \<Rightarrow> bool" where
  "good is \<longleftrightarrow> \<not> eofbit is \<and> \<not> failbit is"

text \<open>
  The sentry of a formatted extraction: on a good stream it skips blanks, and reaching the end
  there sets both bits; on any other stream it sets \<open>failbit\<close>.
\<close>

definition sentry :: "istream \<Rightarrow> istream" where
  "sentry is =
     (if good is then
        (let r = dropWhile isspace (rest is) in
         if r = [] then is\<lparr>rest := [], eofbit := True, failbit := True\<rparr> else is\<lparr>rest := r\<rparr>)
      else is\<lparr>failbit := True\<rparr>)"

text \<open>
  \<open>is >> str\<close>: the variable keeps its old value when the sentry fails; running into the
  end of the stream while reading the word sets \<open>eofbit\<close>.
\<close>

definition read_word :: "string \<Rightarrow> istream \<Rightarrow> string \<times> istream" where
  "read_word old is =
     (let is1 = sentry is in
      if good is1 then
        (let r = dropWhile (\<lambda>c. \<not> isspace c) (rest is1) in
         (takeWhile (\<lambda>c. \<not> isspace c) (rest is1), is1\<lparr>rest := r, eofbit := (r = [])\<rparr>))
      else (old, is1))"

section \<open>Decimal numbers\<close>

definition isdigit :: "char \<Rightarrow> bool" where
  "isdigit c \<longleftrightarrow> 48 \<le> (of_char c :: nat) \<and> (of_char c :: nat) \<le> 57"

definition digit_val :: "char \<Rightarrow> nat" where
  "digit_val c = of_char c - 48"

definition digit_char :: "nat \<Rightarrow> char" where
  "digit_char k = char_of (48 + k)"

text \<open>\<open>os << n\<close> for an unsigned number.\<close>

fun show_nat :: "nat \<Rightarrow> string" where
  "show_nat n = (if n < 10 then [digit_char n] else show_nat (n div 10) @ [digit_char (n mod 10)])"

declare show_nat.simps [simp del]

text \<open>\<open>os << n\<close> for an \<open>int\<close>.\<close>

definition show_int :: "int \<Rightarrow> string" where
  "show_int i = (if i < 0 then CHR ''-'' # show_nat (nat (- i)) else show_nat (nat i))"

definition digits_val :: "string \<Rightarrow> nat" where
  "digits_val ds = foldl (\<lambda>a c. 10 * a + digit_val c) 0 ds"

abbreviation (input) INT_MAX :: int where "INT_MAX \<equiv> 2147483647"
abbreviation (input) INT_MIN :: int where "INT_MIN \<equiv> - 2147483648"

text \<open>An optional sign: the factor and the text after it.\<close>

definition read_sign :: "string \<Rightarrow> int \<times> string" where
  "read_sign s =
     (case s of
        [] \<Rightarrow> (1, s)
      | c # cs \<Rightarrow> if c = CHR ''-'' then (- 1, cs) else if c = CHR ''+'' then (1, cs) else (1, s))"

text \<open>
  \<open>is >> n\<close> for an \<open>int\<close> variable that holds \<open>old\<close> (\<open>None\<close> when it was never
  initialised): no digits give 0 with \<open>failbit\<close>, a value outside the type the nearest
  bound with \<open>failbit\<close>, and a failing sentry leaves the variable alone.
\<close>

definition read_int :: "int option \<Rightarrow> istream \<Rightarrow> int option \<times> istream" where
  "read_int old is =
     (let is1 = sentry is in
      if good is1 then
        (let (sg, body) = read_sign (rest is1);
             ds = takeWhile isdigit body;
             r = dropWhile isdigit body;
             v = sg * int (digits_val ds);
             is2 = is1\<lparr>rest := r, eofbit := (r = [])\<rparr>
         in if ds = [] then (Some 0, is2\<lparr>failbit := True\<rparr>)
            else if v > INT_MAX then (Some INT_MAX, is2\<lparr>failbit := True\<rparr>)
            else if v < INT_MIN then (Some INT_MIN, is2\<lparr>failbit := True\<rparr>)
            else (Some v, is2))
      else (old, is1))"

text \<open>
  \<open>atoi\<close>: blanks, a sign, digits; 0 without digits, and undefined behaviour when the number
  is not an \<open>int\<close>.
\<close>

definition atoi :: "string \<Rightarrow> int res" where
  "atoi s =
     (let (sg, body) = read_sign (dropWhile isspace (c_str s));
          v = sg * int (digits_val (takeWhile isdigit body))
      in if INT_MIN \<le> v \<and> v \<le> INT_MAX then Inr v else Inl IntOverflow)"

section \<open>std::map\<close>

type_synonym ('k, 'v) std_map = "('k \<times> 'v) list"

text \<open>\<open>find\<close> and \<open>at\<close>; \<open>None\<close> stands for \<open>end()\<close>.\<close>

definition map_find :: "'k \<Rightarrow> ('k, 'v) std_map \<Rightarrow> 'v option" where
  "map_find k m = map_of m k"

text \<open>\<open>insert\<close> keeps the entries in key order and does nothing when the key is present.\<close>

fun map_insert :: "'k::linorder \<Rightarrow> 'v \<Rightarrow> ('k, 'v) std_map \<Rightarrow> ('k, 'v) std_map" where
  "map_insert k v [] = [(k, v)]"
| "map_insert k v ((k', v') # m) =
     (if k < k' then (k, v) # (k', v') # m
      else if k = k' then (k', v') # m
      else (k', v') # map_insert k v m)"

definition map_invar :: "('k::linorder, 'v) std_map \<Rightarrow> bool" where
  "map_invar m \<longleftrightarrow> sorted (map fst m) \<and> distinct (map fst m)"


section \<open>Facts about C strings\<close>

lemma c_str_id: "NUL \<notin> set s \<Longrightarrow> c_str s = s"
  by (auto simp: c_str_def intro: takeWhile_eq_all_conv [THEN iffD2])

lemma c_str_NUL_free [simp]: "NUL \<notin> set (c_str s)"
  by (auto simp: c_str_def dest: set_takeWhileD)

lemma c_str_stop [simp]: "NUL \<notin> set s \<Longrightarrow> c_str (s @ NUL # t) = s"
  by (auto simp: c_str_def intro: takeWhile_stop)

lemma c_str_idem [simp]: "c_str (c_str s) = c_str s"
  by (simp add: c_str_id)

lemma length_c_str: "length (c_str s) \<le> length s"
  by (simp add: c_str_def length_takeWhile_le)

lemma strcpy_Inr_iff: "(\<exists>b. strcpy dst src = Inr b) \<longleftrightarrow> length (c_str src) < length dst"
  by (simp add: strcpy_def Let_def)

lemma strcpy_length: "strcpy dst src = Inr b \<Longrightarrow> length b = length dst"
  by (auto simp: strcpy_def Let_def split: if_splits)

lemma strcpy_roundtrip: "strcpy dst src = Inr b \<Longrightarrow> string_of_array b = Inr (c_str src)"
  by (auto simp: strcpy_def Let_def string_of_array_def split: if_splits)

section \<open>Facts about splitting\<close>

lemma getlines_Nil [simp]: "getlines d [] = []"
  by (simp add: getlines.simps getline_def)

lemma getlines_delim: "d \<notin> set a \<Longrightarrow> getlines d (a @ d # s) = a # getlines d s"
proof -
  assume a: "d \<notin> set a"
  have "takeWhile (\<lambda>c. c \<noteq> d) (a @ d # s) = a" by (rule takeWhile_stop) (use a in auto)
  moreover have "dropWhile (\<lambda>c. c \<noteq> d) (a @ d # s) = d # s" by (rule dropWhile_stop) (use a in auto)
  ultimately show ?thesis by (simp add: getlines.simps [of d "a @ d # s"] getline_def)
qed

lemma getlines_last: "d \<notin> set a \<Longrightarrow> a \<noteq> [] \<Longrightarrow> getlines d a = [a]"
proof -
  assume a: "d \<notin> set a" "a \<noteq> []"
  have "takeWhile (\<lambda>c. c \<noteq> d) a = a" by (rule takeWhile_id) (use a in auto)
  moreover have "dropWhile (\<lambda>c. c \<noteq> d) a = []" by (rule dropWhile_none) (use a in auto)
  ultimately have "getline d a = Some (a, [])" using a(2) by (simp only: getline_def if_False list.sel)
  then show ?thesis by (simp add: getlines.simps [of d a])
qed

lemma getlines_free: "\<forall>t \<in> set (getlines d s). d \<notin> set t"
proof (induction d s rule: getlines.induct)
  case (1 d s)
  show ?case
  proof (cases "getline d s")
    case None
    then show ?thesis by (simp add: getlines.simps [of d s])
  next
    case (Some p)
    obtain tok r where p: "p = (tok, r)" by fastforce
    have "d \<notin> set tok" using Some p by (auto simp: getline_def dest: set_takeWhileD split: if_splits)
    with 1 Some p show ?thesis by (simp add: getlines.simps [of d s])
  qed
qed

lemma getlines_concat:
  assumes "\<forall>t \<in> set ts. d \<notin> set t"
  shows "getlines d (concat (map (\<lambda>t. t @ [d]) ts)) = ts"
  using assms by (induction ts) (simp_all add: getlines_delim)

text \<open>Texts joined by a delimiter, the inverse of the \<open>getline\<close> loops.\<close>

fun join_with :: "char \<Rightarrow> string list \<Rightarrow> string" where
  "join_with d [] = []"
| "join_with d [t] = t"
| "join_with d (t # u # ts) = t @ d # join_with d (u # ts)"

lemma getlines_join:
  assumes "\<forall>t \<in> set ts. d \<notin> set t" and "ts \<noteq> [] \<longrightarrow> last ts \<noteq> []"
  shows "getlines d (join_with d ts) = ts"
  using assms by (induction d ts rule: join_with.induct) (auto simp: getlines_delim getlines_last)

lemma words_stop: "\<forall>c \<in> set s. isspace c \<Longrightarrow> words s = []"
proof -
  assume "\<forall>c \<in> set s. isspace c"
  then have "dropWhile isspace s = []" by (intro dropWhile_none) auto
  then show ?thesis by (subst words.simps) (simp only: list.case)
qed

lemma words_Nil [simp]: "words [] = []"
  by (simp add: words_stop)

lemma words_step:
  assumes "\<forall>x \<in> set b. isspace x" and "\<not> isspace c"
  shows "words (b @ c # cs) =
    takeWhile (\<lambda>c. \<not> isspace c) (c # cs) # words (dropWhile (\<lambda>c. \<not> isspace c) (c # cs))"
proof -
  have "dropWhile isspace (b @ c # cs) = c # cs" by (rule dropWhile_stop) (use assms in auto)
  then show ?thesis by (subst words.simps) (simp only: list.case)
qed

lemma words_cases:
  obtains (blank) "\<forall>c \<in> set s. isspace c" "words s = []"
    | (word) b c cs where "s = b @ c # cs" "\<forall>x \<in> set b. isspace x" "\<not> isspace c"
proof (cases "dropWhile isspace s")
  case Nil
  then have "\<forall>c \<in> set s. isspace c" by simp
  then show ?thesis using words_stop blank by blast
next
  case (Cons c cs)
  have "\<not> isspace c" using Cons by (metis hd_dropWhile list.distinct(1) list.sel(1))
  moreover have "s = takeWhile isspace s @ c # cs" using Cons by (metis takeWhile_dropWhile_id)
  moreover have "\<forall>x \<in> set (takeWhile isspace s). isspace x" by (auto dest: set_takeWhileD)
  ultimately show ?thesis using word by blast
qed

lemma dropWhile_nonspace_id:
  "w \<noteq> [] \<Longrightarrow> \<forall>c \<in> set w. \<not> isspace c \<Longrightarrow> dropWhile isspace (w @ s) = w @ s"
  by (cases w) auto

lemma words_word:
  assumes w: "w \<noteq> []" "\<forall>c \<in> set w. \<not> isspace c" and c: "isspace c"
  shows "words (w @ c # s) = w # words (c # s)"
proof -
  obtain x xs where x: "w = x # xs" using w by (cases w) auto
  have "takeWhile (\<lambda>c. \<not> isspace c) (w @ c # s) = w" by (rule takeWhile_stop) (use w c in auto)
  moreover have "dropWhile (\<lambda>c. \<not> isspace c) (w @ c # s) = c # s"
    by (rule dropWhile_stop) (use w c in auto)
  ultimately show ?thesis using words_step [of "[]" x "xs @ c # s"] w x by simp
qed

lemma words_blank:
  assumes "\<forall>c \<in> set b. isspace c"
  shows "words (b @ s) = words s"
proof (cases s rule: words_cases)
  case blank
  then show ?thesis using assms words_stop [of "b @ s"] by auto
next
  case (word b' c cs)
  then show ?thesis
    using assms words_step [of "b @ b'" c cs] words_step [of b' c cs] by auto
qed

lemma words_single:
  assumes w: "w \<noteq> []" "\<forall>c \<in> set w. \<not> isspace c"
  shows "words w = [w]"
proof -
  obtain x xs where x: "w = x # xs" using w by (cases w) auto
  have "takeWhile (\<lambda>c. \<not> isspace c) w = w" by (rule takeWhile_id) (use w in auto)
  moreover have "dropWhile (\<lambda>c. \<not> isspace c) w = []" by (rule dropWhile_none) (use w in auto)
  ultimately show ?thesis using words_step [of "[]" x xs] w x by (metis append_Nil empty_iff list.set(1) list.set_intros(1) words_Nil)
qed

lemma words_nonempty: "w \<in> set (words s) \<Longrightarrow> w \<noteq> [] \<and> (\<forall>c \<in> set w. \<not> isspace c)"
proof (induction "length s" arbitrary: s rule: less_induct)
  case less
  show ?case
  proof (cases s rule: words_cases)
    case blank
    then show ?thesis using less.prems by simp
  next
    case (word b c cs)
    let ?w = "takeWhile (\<lambda>c. \<not> isspace c) (c # cs)" and ?r = "dropWhile (\<lambda>c. \<not> isspace c) (c # cs)"
    have "length ?r < length s"
      using length_dropWhile_le [of "\<lambda>c. \<not> isspace c" cs] word by simp
    moreover have "w = ?w \<or> w \<in> set (words ?r)"
      using less.prems words_step [OF word(2,3), of cs] word(1) by simp
    moreover have "?w \<noteq> [] \<and> (\<forall>x \<in> set ?w. \<not> isspace x)"
      using word(3) by (auto dest: set_takeWhileD)
    ultimately show ?thesis using less.hyps by metis
  qed
qed

section \<open>Facts about streams\<close>

text \<open>Reading a word that is followed by a blank, or that ends the stream.\<close>

lemma read_word_blank:
  assumes "good is" and "rest is = b @ w @ c # s" and "\<forall>x \<in> set b. isspace x"
    and "w \<noteq> []" and "\<forall>x \<in> set w. \<not> isspace x" and "isspace c"
  shows "read_word old is = (w, is\<lparr>rest := c # s\<rparr>)"
proof -
  have d: "dropWhile isspace (rest is) = w @ c # s"
    using assms(2-5) by (simp add: dropWhile_skip dropWhile_nonspace_id)
  have "takeWhile (\<lambda>x. \<not> isspace x) (w @ c # s) = w" "dropWhile (\<lambda>x. \<not> isspace x) (w @ c # s) = c # s"
    using assms(5,6) by (auto intro: takeWhile_stop dropWhile_stop)
  with d assms(1) show ?thesis
    by (cases "is") (auto simp: read_word_def sentry_def Let_def good_def)
qed

lemma read_word_word:
  assumes "good is" and "rest is = b @ c # cs" and "\<forall>x \<in> set b. isspace x" and "\<not> isspace c"
  shows "read_word old is = (takeWhile (\<lambda>c. \<not> isspace c) (c # cs),
    is\<lparr>rest := dropWhile (\<lambda>c. \<not> isspace c) (c # cs),
       eofbit := (dropWhile (\<lambda>c. \<not> isspace c) (c # cs) = [])\<rparr>)"
proof -
  have "dropWhile isspace (rest is) = c # cs"
    unfolding assms(2) by (rule dropWhile_stop) (use assms(3,4) in auto)
  then have "sentry is = is\<lparr>rest := c # cs\<rparr>" using assms(1) by (simp add: sentry_def)
  then show ?thesis using assms(1) by (simp add: read_word_def Let_def good_def)
qed

lemma read_word_end:
  assumes "good is" and "\<forall>x \<in> set (rest is). isspace x"
  shows "read_word old is = (old, is\<lparr>rest := [], eofbit := True, failbit := True\<rparr>)"
proof -
  have "dropWhile isspace (rest is) = []" using assms(2) by simp
  with assms(1) show ?thesis by (simp add: read_word_def sentry_def Let_def good_def)
qed

lemma read_word_bad: "\<not> good is \<Longrightarrow> read_word old is = (old, is\<lparr>failbit := True\<rparr>)"
  by (auto simp: read_word_def sentry_def Let_def good_def)

section \<open>Facts about decimal numbers\<close>

lemma of_char_digit: "k < 10 \<Longrightarrow> (of_char (digit_char k) :: nat) = 48 + k"
  by (simp add: digit_char_def)

lemma isdigit_digit_char [simp]: "k < 10 \<Longrightarrow> isdigit (digit_char k)"
  by (simp add: isdigit_def of_char_digit)

lemma digit_val_digit_char [simp]: "k < 10 \<Longrightarrow> digit_val (digit_char k) = k"
  by (simp add: digit_val_def of_char_digit)

lemma isdigit_not_space: "isdigit c \<Longrightarrow> \<not> isspace c"
  by (auto simp: isdigit_def isspace_def)

lemma isdigit_not_sign: "isdigit c \<Longrightarrow> c \<noteq> CHR ''-'' \<and> c \<noteq> CHR ''+'' \<and> c \<noteq> NUL \<and> c \<noteq> CHR '',''"
  by (auto simp: isdigit_def NUL_def)

lemma show_nat_digits: "\<forall>c \<in> set (show_nat n). isdigit c"
proof (induction n rule: show_nat.induct)
  case (1 n)
  then show ?case by (cases "n < 10") (auto simp: show_nat.simps [of n])
qed

lemma show_nat_nonempty [simp]: "show_nat n \<noteq> []"
  by (subst show_nat.simps) simp

lemma digits_val_show_nat [simp]: "digits_val (show_nat n) = n"
proof (induction n rule: show_nat.induct)
  case (1 n)
  show ?case
  proof (cases "n < 10")
    case True
    then show ?thesis by (simp add: show_nat.simps [of n] digits_val_def)
  next
    case False
    with 1 have "digits_val (show_nat (n div 10)) = n div 10" by simp
    with False show ?thesis by (simp add: show_nat.simps [of n] digits_val_def)
  qed
qed

lemma read_sign_digits:
  "ds \<noteq> [] \<Longrightarrow> \<forall>c \<in> set ds. isdigit c \<Longrightarrow> read_sign (ds @ s) = (1, ds @ s)"
  by (cases ds) (auto simp: read_sign_def dest: isdigit_not_sign)

lemma isdigit_space: "isspace c \<Longrightarrow> \<not> isdigit c"
  using isdigit_not_space by blast

text \<open>Reading back a number that was written, up to the blank after it.\<close>

lemma read_int_show_nat:
  assumes "good is" and "rest is = show_nat n @ c # s" and "isspace c" and "int n \<le> INT_MAX"
  shows "read_int old is = (Some (int n), is\<lparr>rest := c # s\<rparr>)"
proof -
  have ns: "\<forall>x \<in> set (show_nat n). \<not> isspace x"
    using show_nat_digits isdigit_not_space by blast
  have d: "dropWhile isspace (show_nat n @ c # s) = show_nat n @ c # s"
    by (rule dropWhile_nonspace_id) (use ns in auto)
  have "takeWhile isdigit (show_nat n @ c # s) = show_nat n"
    "dropWhile isdigit (show_nat n @ c # s) = c # s"
    using show_nat_digits assms(3) by (auto intro!: takeWhile_stop dropWhile_stop dest: isdigit_space)
  moreover have "read_sign (show_nat n @ c # s) = (1, show_nat n @ c # s)"
    by (rule read_sign_digits) (use show_nat_digits in auto)
  ultimately show ?thesis using assms d
    by (cases "is") (auto simp: read_int_def sentry_def Let_def good_def)
qed

lemma atoi_show_nat [simp]:
  assumes "int n \<le> INT_MAX"
  shows "atoi (show_nat n) = Inr (int n)"
proof -
  have nn: "NUL \<notin> set (show_nat n)" using show_nat_digits isdigit_not_sign by blast
  have "dropWhile isspace (show_nat n @ []) = show_nat n @ []"
    by (rule dropWhile_nonspace_id) (use show_nat_digits isdigit_not_space in auto)
  moreover have "read_sign (show_nat n @ []) = (1, show_nat n @ [])"
    by (rule read_sign_digits) (use show_nat_digits in auto)
  ultimately show ?thesis
    using assms nn show_nat_digits by (simp add: atoi_def c_str_id takeWhile_id)
qed

section \<open>The interface of std::map\<close>

locale ordered_map =
  fixes empty :: "'m"
    and find :: "'k::linorder \<Rightarrow> 'm \<Rightarrow> 'v option"
    and insert :: "'k \<Rightarrow> 'v \<Rightarrow> 'm \<Rightarrow> 'm"
    and entries :: "'m \<Rightarrow> ('k \<times> 'v) list"
    and invar :: "'m \<Rightarrow> bool"
  assumes find_empty: "find k empty = None"
    and find_insert: "invar m \<Longrightarrow>
      find k' (insert k v m) = (if k' = k \<and> find k m = None then Some v else find k' m)"
    and entries_find: "invar m \<Longrightarrow> (k, v) \<in> set (entries m) \<longleftrightarrow> find k m = Some v"
    and entries_sorted: "invar m \<Longrightarrow> sorted (map fst (entries m)) \<and> distinct (map fst (entries m))"
    and invar_empty: "invar empty"
    and invar_insert: "invar m \<Longrightarrow> invar (insert k v m)"
begin

lemma insert_present: "invar m \<Longrightarrow> find k m = Some w \<Longrightarrow> find k' (insert k v m) = find k' m"
  by (simp add: find_insert)

lemma insert_fresh: "invar m \<Longrightarrow> find k m = None \<Longrightarrow> find k (insert k v m) = Some v"
  by (simp add: find_insert)

text \<open>Loading a table: entries are inserted one by one, the first value for a key wins.\<close>

lemma fold_insert_find:
  assumes "invar m"
  shows "find k (fold (\<lambda>(k, v). insert k v) kvs m) =
    (case find k m of Some v \<Rightarrow> Some v | None \<Rightarrow> map_of kvs k)
    \<and> invar (fold (\<lambda>(k, v). insert k v) kvs m)"
  using assms
proof (induction kvs arbitrary: m)
  case Nil
  then show ?case by (simp split: option.split)
next
  case (Cons kv kvs)
  obtain a b where kv: "kv = (a, b)" by fastforce
  have "invar (insert a b m)" using Cons.prems by (rule invar_insert)
  from Cons.IH [OF this] show ?case
    using Cons.prems by (auto simp: kv find_insert split: option.splits)
qed

end

lemma map_insert_keys: "set (map fst (map_insert k v m)) = insert k (set (map fst m))"
  by (induction k v m rule: map_insert.induct) auto

lemma map_insert_sorted: "sorted (map fst m) \<Longrightarrow> sorted (map fst (map_insert k v m))"
proof (induction k v m rule: map_insert.induct)
  case (2 k v k' v' m)
  then show ?case
    using map_insert_keys [of k v m] by (auto simp: not_less dest: order_le_imp_less_or_eq)
qed simp

lemma map_insert_distinct:
  "sorted (map fst m) \<Longrightarrow> distinct (map fst m) \<Longrightarrow> distinct (map fst (map_insert k v m))"
proof (induction k v m rule: map_insert.induct)
  case (2 k v k' v' m)
  then show ?case using map_insert_keys [of k v m] by auto
qed simp

lemma map_insert_find:
  "sorted (map fst m) \<Longrightarrow>
   map_of (map_insert k v m) k' = (if k' = k \<and> map_of m k = None then Some v else map_of m k')"
proof (induction k v m rule: map_insert.induct)
  case (2 k v a b m)
  show ?case
  proof (cases "k < a")
    case True
    then have "map_of ((a, b) # m) k = None"
      using 2 by (auto simp: map_of_eq_None_iff)
    with True show ?thesis by auto
  next
    case False
    with 2 show ?thesis by auto
  qed
qed simp

interpretation std: ordered_map "[]" map_find map_insert "\<lambda>m. m" map_invar
proof
  fix m :: "('k::linorder, 'v) std_map" and k k' :: 'k and v :: 'v
  show "map_find k ([] :: ('k, 'v) std_map) = None" by (simp add: map_find_def)
  show "map_invar ([] :: ('k, 'v) std_map)" by (simp add: map_invar_def)
  assume m: "map_invar m"
  then show "map_find k' (map_insert k v m) =
      (if k' = k \<and> map_find k m = None then Some v else map_find k' m)"
    by (auto simp: map_find_def map_invar_def map_insert_find)
  from m show "(k, v) \<in> set m \<longleftrightarrow> map_find k m = Some v"
    by (simp add: map_find_def map_invar_def map_of_eq_Some_iff)
  from m show "sorted (map fst m) \<and> distinct (map fst m)" by (simp add: map_invar_def)
  from m show "map_invar (map_insert k v m)"
    by (simp add: map_invar_def map_insert_sorted map_insert_distinct)
qed

end
