(* ===== verification/Packet.thy ===== *)
theory Packet
  imports Cxx_Std
begin

text \<open>
  The messages of the protocol (\<open>source/messaging/Packet.hpp\<close> and \<open>Packet.cpp\<close>).
  A packet keeps the widths of the source's fields and its payload is the 512 bytes of the
  array.  Every constructor takes the time as an argument, the value \<open>std::time(nullptr)\<close>
  has at the call, and fails with \<open>BufferOverflow\<close> where \<open>strcpy\<close> would write past the
  array.  The lemmas say what a receiver reads back, for which texts the constructors are
  defined, and which packet types have a printable name.
\<close>

section \<open>Packets\<close>

abbreviation (input) PACKET_CONNECT_CMD :: u16 where "PACKET_CONNECT_CMD \<equiv> 0"
abbreviation (input) PACKET_DISCONNECT_CMD :: u16 where "PACKET_DISCONNECT_CMD \<equiv> 1"
abbreviation (input) PACKET_ACCEPT_CONN_CMD :: u16 where "PACKET_ACCEPT_CONN_CMD \<equiv> 2"
abbreviation (input) PACKET_REJECT_CONN_CMD :: u16 where "PACKET_REJECT_CONN_CMD \<equiv> 3"
abbreviation (input) PACKET_FOLLOW_CMD :: u16 where "PACKET_FOLLOW_CMD \<equiv> 4"
abbreviation (input) PACKET_SEND_CMD :: u16 where "PACKET_SEND_CMD \<equiv> 5"
abbreviation (input) PACKET_NOTIFICATION :: u16 where "PACKET_NOTIFICATION \<equiv> 6"
abbreviation (input) PACKET_ERROR :: u16 where "PACKET_ERROR \<equiv> 7"
abbreviation (input) PACKET_INFO :: u16 where "PACKET_INFO \<equiv> 8"
abbreviation (input) PACKET_REQUEST_USER_INFO :: u16 where "PACKET_REQUEST_USER_INFO \<equiv> 9"
abbreviation (input) PACKET_CONFIRM_STATE_CHANGE :: u16 where "PACKET_CONFIRM_STATE_CHANGE \<equiv> 10"
abbreviation (input) PACKET_MAX_PAYLOAD_LEN :: nat where "PACKET_MAX_PAYLOAD_LEN \<equiv> 512"

record Packet =
  ptype :: u16
  seqn :: u64
  plength :: u16
  timestamp :: u64
  payload :: string

text \<open>
  Aggregate initialisation \<open>Packet p = {.type = ..., .timestamp = ...}\<close>: the member without
  an initialiser, the payload, is zeroed; the length is converted to 16 bits.
\<close>

definition packet_init :: "u64 \<Rightarrow> u16 \<Rightarrow> u64 \<Rightarrow> nat \<Rightarrow> Packet" where
  "packet_init now t n len =
     \<lparr>ptype = t, seqn = n, plength = of_nat len, timestamp = now,
      payload = replicate PACKET_MAX_PAYLOAD_LEN NUL\<rparr>"

definition memset_payload :: "Packet \<Rightarrow> Packet" where
  "memset_payload p = p\<lparr>payload := replicate PACKET_MAX_PAYLOAD_LEN NUL\<rparr>"

definition strcpy_payload :: "Packet \<Rightarrow> string \<Rightarrow> Packet res" where
  "strcpy_payload p s = res_bind (strcpy (payload p) s) (\<lambda>b. Inr (p\<lparr>payload := b\<rparr>))"

section \<open>Constructors\<close>

definition MakeConnectCommand :: "u64 \<Rightarrow> u64 \<Rightarrow> string \<Rightarrow> Packet res" where
  "MakeConnectCommand now lastSeqn handle =
     strcpy_payload (memset_payload
       (packet_init now PACKET_CONNECT_CMD (lastSeqn + 1) (length handle))) handle"

definition MakeDisconnectCommand :: "u64 \<Rightarrow> u64 \<Rightarrow> string \<Rightarrow> Packet res" where
  "MakeDisconnectCommand now lastSeqn handle =
     strcpy_payload (memset_payload
       (packet_init now PACKET_DISCONNECT_CMD (lastSeqn + 1) (length handle))) handle"

definition MakeAcceptConnCommand :: "u64 \<Rightarrow> u64 \<Rightarrow> Packet" where
  "MakeAcceptConnCommand now lastSeqn = packet_init now PACKET_ACCEPT_CONN_CMD (lastSeqn + 1) 0"

definition MakeRejectConnCommand :: "u64 \<Rightarrow> u64 \<Rightarrow> Packet" where
  "MakeRejectConnCommand now lastSeqn = packet_init now PACKET_REJECT_CONN_CMD (lastSeqn + 1) 0"

definition MakeFollowCommand :: "u64 \<Rightarrow> u64 \<Rightarrow> string \<Rightarrow> Packet res" where
  "MakeFollowCommand now lastSeqn handle =
     strcpy_payload (packet_init now PACKET_FOLLOW_CMD (lastSeqn + 1) (length handle)) handle"

definition MakeSendCommand :: "u64 \<Rightarrow> u64 \<Rightarrow> string \<Rightarrow> Packet res" where
  "MakeSendCommand now lastSeqn message =
     strcpy_payload (packet_init now PACKET_SEND_CMD (lastSeqn + 1) (length message)) message"

definition notification_text :: "string \<Rightarrow> string \<Rightarrow> string" where
  "notification_text message sender = ''@'' @ sender @ '':'' @ [CHR 0x0A] @ message"

definition MakeNotification :: "u64 \<Rightarrow> u64 \<Rightarrow> string \<Rightarrow> string \<Rightarrow> Packet res" where
  "MakeNotification now lastSeqn message sender =
     (let p = packet_init now PACKET_NOTIFICATION (lastSeqn + 1) (length message);
          output = notification_text message sender
      in strcpy_payload p output)"

definition MakeError :: "u64 \<Rightarrow> u64 \<Rightarrow> string \<Rightarrow> Packet res" where
  "MakeError now lastSeqn reason =
     (let p = packet_init now PACKET_ERROR (lastSeqn + 1) (length reason);
          output = ''Error: '' @ reason
      in strcpy_payload p output)"

definition MakeInfo :: "u64 \<Rightarrow> u64 \<Rightarrow> string \<Rightarrow> Packet res" where
  "MakeInfo now lastSeqn message =
     (let p = packet_init now PACKET_INFO (lastSeqn + 1) (length message);
          output = message
      in strcpy_payload p output)"

definition MakeRequestUserInfo :: "u64 \<Rightarrow> u64 \<Rightarrow> Packet" where
  "MakeRequestUserInfo now lastSeqn = packet_init now PACKET_REQUEST_USER_INFO (lastSeqn + 1) 0"

definition MakeConfirmStateChangeMessage :: "u64 \<Rightarrow> u64 \<Rightarrow> Packet" where
  "MakeConfirmStateChangeMessage now seqnToBeConfirmed =
     packet_init now PACKET_CONFIRM_STATE_CHANGE seqnToBeConfirmed 0"

text \<open>
  \<open>TypeToStr\<close> has no \<open>default\<close> case and no \<open>return\<close> after its \<open>switch\<close>: for any
  other type the call runs off its end, and its callers print the value.
\<close>

definition TypeToStr :: "u16 \<Rightarrow> string res" where
  "TypeToStr t =
     (if t = PACKET_CONNECT_CMD then Inr ''PACKED_CONNECT_CMD''
      else if t = PACKET_DISCONNECT_CMD then Inr ''PACKET_DISCONNECT_CMD''
      else if t = PACKET_ACCEPT_CONN_CMD then Inr ''PACKET_ACCEPT_CONN_CMD''
      else if t = PACKET_REJECT_CONN_CMD then Inr ''PACKET_REJECT_CONN''
      else if t = PACKET_FOLLOW_CMD then Inr ''PACKET_FOLLOW_CMD''
      else if t = PACKET_SEND_CMD then Inr ''PACKET_SEND_CMD''
      else if t = PACKET_ERROR then Inr ''PACKET_ERROR''
      else if t = PACKET_NOTIFICATION then Inr ''PACKET_NOTIFICATION''
      else if t = PACKET_INFO then Inr ''PACKET_INFO''
      else if t = PACKET_CONFIRM_STATE_CHANGE then Inr ''PACKET_CONFIRM_STATE_CHANGE''
      else Inl MissingReturn)"

text \<open>What \<open>std::string s(message.payload)\<close> reads from a packet.\<close>

definition packet_text :: "Packet \<Rightarrow> string res" where
  "packet_text p = string_of_array (payload p)"

definition packet_wf :: "Packet \<Rightarrow> bool" where
  "packet_wf p \<longleftrightarrow> length (payload p) = PACKET_MAX_PAYLOAD_LEN"

section \<open>What the constructors produce\<close>

lemma packet_init_simps [simp]:
  "ptype (packet_init now t n k) = t" "seqn (packet_init now t n k) = n"
  "plength (packet_init now t n k) = of_nat k" "timestamp (packet_init now t n k) = now"
  "length (payload (packet_init now t n k)) = 512" "packet_wf (packet_init now t n k)"
  by (simp_all add: packet_init_def packet_wf_def)

lemma memset_payload_init [simp]: "memset_payload (packet_init now t n k) = packet_init now t n k"
  by (simp add: memset_payload_def packet_init_def)

lemma strcpy_payload_InrD:
  assumes "strcpy_payload p s = Inr q"
  shows "packet_text q = Inr (c_str s)" "ptype q = ptype p" "seqn q = seqn p"
    "plength q = plength p" "timestamp q = timestamp p" "length (payload q) = length (payload p)"
  using assms strcpy_roundtrip strcpy_length
  by (auto simp: strcpy_payload_def packet_text_def res_simps)

lemma strcpy_payload_init_Inr:
  "(\<exists>q. strcpy_payload (packet_init now t n k) s = Inr q) \<longleftrightarrow> length (c_str s) < 512"
  by (auto simp: strcpy_payload_def res_simps strcpy_def Let_def)

lemma strcpy_payload_init_Inl:
  "strcpy_payload (packet_init now t n k) s = Inl e \<longleftrightarrow> 512 \<le> length (c_str s) \<and> e = BufferOverflow"
  by (auto simp: strcpy_payload_def res_simps strcpy_def Let_def)

lemmas Make_defs = MakeConnectCommand_def MakeDisconnectCommand_def MakeFollowCommand_def
  MakeSendCommand_def MakeInfo_def MakeNotification_def MakeError_def

lemma Make_init:
  assumes "NUL \<notin> set s" and "length s < 512"
  shows "\<exists>p. strcpy_payload (packet_init now t n k) s = Inr p \<and> packet_text p = Inr s \<and>
    ptype p = t \<and> seqn p = n \<and> plength p = of_nat k \<and> timestamp p = now \<and> packet_wf p"
proof -
  obtain p where "strcpy_payload (packet_init now t n k) s = Inr p"
    using strcpy_payload_init_Inr [of now t n k s] assms by (auto simp: c_str_id)
  then show ?thesis
    using strcpy_payload_InrD [of "packet_init now t n k" s p] assms
    by (auto simp: c_str_id packet_wf_def)
qed

lemma notification_text_length: "length (notification_text m s) = length m + length s + 3"
  by (simp add: notification_text_def)

lemma notification_text_NUL_free:
  "NUL \<notin> set (notification_text m s) \<longleftrightarrow> NUL \<notin> set m \<and> NUL \<notin> set s"
  by (auto simp: notification_text_def NUL_def)

lemma MakeNotification_Inr:
  assumes "MakeNotification now n m s = Inr p" and "NUL \<notin> set m" and "NUL \<notin> set s"
  shows "packet_text p = Inr (notification_text m s)" "ptype p = PACKET_NOTIFICATION"
    "seqn p = n + 1" "packet_wf p" "plength p = of_nat (length m)"
  using assms strcpy_payload_InrD [of _ "notification_text m s" p]
  by (auto simp: MakeNotification_def Let_def packet_wf_def c_str_id notification_text_NUL_free)

section \<open>Properties\<close>

text \<open>
  C30.  What a command says is what its receiver reads: for every text without NUL of at most 511
  characters, each of the one-text constructors succeeds, the receiver's
  \<open>std::string(payload)\<close> gives the text back, and the header carries the next sequence number,
  the text's length and the time.
\<close>

theorem Make_text_roundtrip:
  assumes "NUL \<notin> set s" and "length s < PACKET_MAX_PAYLOAD_LEN"
    and "mk \<in> {MakeConnectCommand, MakeDisconnectCommand, MakeFollowCommand, MakeSendCommand, MakeInfo}"
  shows "\<exists>p. mk now n s = Inr p \<and> packet_text p = Inr s \<and> seqn p = n + 1 \<and>
    plength p = of_nat (length s) \<and> timestamp p = now \<and> packet_wf p"
proof -
  obtain t where "mk now n s = strcpy_payload (packet_init now t (n + 1) (length s)) s"
    using assms(3) by (auto simp: Make_defs)
  then show ?thesis using Make_init [OF assms(1,2)] by metis
qed

theorem Make_text_roundtrip_witness:
  "\<exists>p. MakeFollowCommand 7 41 ''alice'' = Inr p \<and> packet_text p = Inr ''alice'' \<and> seqn p = 41 + 1 \<and>
    plength p = of_nat (length ''alice'') \<and> timestamp p = 7 \<and> packet_wf p"
  by (rule Make_text_roundtrip) (simp_all add: NUL_def)

text \<open>
  C31.  The bounds of the notification packet: for texts without NUL, building it succeeds exactly
  when sender and message together have at most 508 characters, and otherwise the copy into the
  payload overflows; the receiver reads \<open>@sender:\<close>, a line feed and the message.
\<close>

theorem MakeNotification_bounds:
  assumes "NUL \<notin> set m" and "NUL \<notin> set s"
  shows "if length m + length s \<le> 508
    then \<exists>p. MakeNotification now n m s = Inr p \<and> packet_text p = Inr (''@'' @ s @ '':'' @ [CHR 0x0A] @ m)
    else MakeNotification now n m s = Inl BufferOverflow"
proof -
  let ?t = "notification_text m s"
  have nf: "NUL \<notin> set ?t" using assms by (simp add: notification_text_NUL_free)
  have "length ?t < 512 \<longleftrightarrow> length m + length s \<le> 508" by (auto simp: notification_text_length)
  then show ?thesis unfolding notification_text_def [symmetric]
    using Make_init [OF nf, of now PACKET_NOTIFICATION "n + 1" "length m"]
      strcpy_payload_init_Inl [of now PACKET_NOTIFICATION "n + 1" "length m" ?t]
    by (auto simp: MakeNotification_def Let_def c_str_id [OF nf])
qed

theorem MakeNotification_bounds_witness:
  "(\<exists>p. MakeNotification 0 5 ''hi'' ''bob'' = Inr p \<and>
      packet_text p = Inr (''@'' @ ''bob'' @ '':'' @ [CHR 0x0A] @ ''hi''))
   \<and> MakeNotification 0 5 (replicate 500 CHR ''x'') ''fernando9'' = Inl BufferOverflow"
  using MakeNotification_bounds [of "''hi''" "''bob''" 0 5]
    MakeNotification_bounds [of "replicate 500 CHR ''x''" "''fernando9''" 0 5]
  by (simp add: NUL_def)

end
