(* ===== verification/Wire.thy ===== *)
theory Wire
  imports Packet
begin

unbundle bit_operations_syntax

text \<open>
  Datagrams (\<open>source/server/Socket.hpp\<close>, \<open>Socket.cpp\<close>) and the bytes of a packet.  The
  programs send \<open>sizeof(Packet)\<close> raw bytes of the struct and the receiver casts its buffer
  back, so the wire format is the layout of the struct on the x86-64 ABI: little-endian fields
  at offsets 0, 8, 16, 24 and 32, two holes of six padding bytes whose contents are arbitrary,
  544 bytes in all.  The operating system is a parameter (\<open>Os\<close>): the clock, the results of
  \<open>sendto\<close> and the two address conversions.
\<close>

section \<open>Addresses and the operating system\<close>

record SocketAddress =
  address :: string
  port :: int

record sockaddr_in =
  sin_port :: u16
  sin_addr :: u32

record Os =
  os_time :: u64
  os_sendto :: "sockaddr_in \<Rightarrow> Packet \<Rightarrow> int"
  os_inet_addr :: "string \<Rightarrow> u32"
  os_inet_ntoa :: "u32 \<Rightarrow> string"

text \<open>Network byte order on a little-endian machine: the two bytes are swapped.\<close>

definition htons :: "u16 \<Rightarrow> u16" where
  "htons w = (push_bit 8 w OR drop_bit 8 w)"

definition ntohs :: "u16 \<Rightarrow> u16" where
  "ntohs w = (push_bit 8 w OR drop_bit 8 w)"

section \<open>Sockets\<close>

record Socket =
  boundAddress :: "SocketAddress option"
  socketDesc :: int

definition Socket_new :: "int \<Rightarrow> Socket" where
  "Socket_new d = \<lparr>boundAddress = None, socketDesc = d\<rparr>"

text \<open>
  \<open>Bind\<close> has a \<open>return\<close> only on the failing path: \<open>None\<close> is the call that ran off its
  end.  The result of the system call is only logged.
\<close>

definition Bind :: "string \<Rightarrow> int \<Rightarrow> Socket \<Rightarrow> int option \<times> Socket" where
  "Bind a p sk =
     (if socketDesc sk \<noteq> - 1
      then (None, sk\<lparr>boundAddress := Some \<lparr>address = a, port = p\<rparr>\<rparr>)
      else (Some (- 1), sk))"

definition Ready :: "Socket \<Rightarrow> bool" where
  "Ready sk \<longleftrightarrow> socketDesc sk \<noteq> - 1"

definition recipient_of :: "Os \<Rightarrow> SocketAddress \<Rightarrow> sockaddr_in" where
  "recipient_of os a =
     \<lparr>sin_port = htons (word_of_int (port a)), sin_addr = os_inet_addr os (c_str (address a))\<rparr>"

text \<open>
  \<open>Send\<close>: the returned number and the datagrams that left.  The name of the type is printed
  after a successful \<open>sendto\<close>.
\<close>

definition Send ::
  "Os \<Rightarrow> Socket \<Rightarrow> SocketAddress \<Rightarrow> Packet \<Rightarrow> (int \<times> (sockaddr_in \<times> Packet) list) res" where
  "Send os sk a data =
     (if socketDesc sk < 0 then Inr (- 1, [])
      else
        (let recipient = recipient_of os a;
             r = os_sendto os recipient data
         in if r < 0 then Inr (r, [])
            else res_bind (TypeToStr (ptype data)) (\<lambda>_. Inr (r, [(recipient, data)]))))"

text \<open>
  \<open>Receive\<close> into a buffer: the datagram overwrites the front of the buffer and is cut at the
  buffer's size; \<open>None\<close> is a failing \<open>recvfrom\<close>.
\<close>

definition Receive ::
  "Os \<Rightarrow> (sockaddr_in \<times> u8 list) option \<Rightarrow> u8 list \<Rightarrow> SocketAddress \<Rightarrow> int \<times> u8 list \<times> SocketAddress" where
  "Receive os incoming buffer a =
     (case incoming of
        None \<Rightarrow> (- 1, buffer, a)
      | Some (from, bytes) \<Rightarrow>
          (let r = min (length bytes) (length buffer);
               buffer' = take r bytes @ drop r buffer
           in if r > 0
              then (int r, buffer',
                    a\<lparr>address := os_inet_ntoa os (sin_addr from), port := uint (ntohs (sin_port from))\<rparr>)
              else (- 1, buffer', a)))"

section \<open>The bytes of a packet\<close>

fun le_bytes :: "nat \<Rightarrow> nat \<Rightarrow> u8 list" where
  "le_bytes 0 n = []"
| "le_bytes (Suc k) n = of_nat (n mod 256) # le_bytes k (n div 256)"

fun of_le :: "u8 list \<Rightarrow> nat" where
  "of_le [] = 0"
| "of_le (b # bs) = unat b + 256 * of_le bs"

definition byte_of_char :: "char \<Rightarrow> u8" where
  "byte_of_char c = of_nat (of_char c)"

definition char_of_byte :: "u8 \<Rightarrow> char" where
  "char_of_byte b = char_of (unat b)"

abbreviation (input) sizeof_Packet :: nat where "sizeof_Packet \<equiv> 544"

text \<open>The object representation of a packet, with the contents of its two holes.\<close>

definition packet_bytes :: "u8 list \<Rightarrow> u8 list \<Rightarrow> Packet \<Rightarrow> u8 list" where
  "packet_bytes pad1 pad2 p =
     le_bytes 2 (unat (ptype p)) @ pad1 @ le_bytes 8 (unat (seqn p)) @
     le_bytes 2 (unat (plength p)) @ pad2 @ le_bytes 8 (unat (timestamp p)) @
     map byte_of_char (payload p)"

text \<open>\<open>*reinterpret_cast<Message::Packet*>(buffer)\<close>.\<close>

definition packet_of_bytes :: "u8 list \<Rightarrow> Packet" where
  "packet_of_bytes bs =
     \<lparr>ptype = of_nat (of_le (take 2 bs)),
      seqn = of_nat (of_le (take 8 (drop 8 bs))),
      plength = of_nat (of_le (take 2 (drop 16 bs))),
      timestamp = of_nat (of_le (take 8 (drop 24 bs))),
      payload = map char_of_byte (take 512 (drop 32 bs))\<rparr>"

section \<open>Facts about the layout\<close>

lemma length_le_bytes [simp]: "length (le_bytes k n) = k"
  by (induction k arbitrary: n) auto

lemma of_le_le_bytes: "of_le (le_bytes k n) = n mod 256 ^ k"
proof (induction k arbitrary: n)
  case 0
  then show ?case by simp
next
  case (Suc k)
  have "of_le (le_bytes (Suc k) n) = n mod 256 + 256 * (n div 256 mod 256 ^ k)"
    by (simp add: Suc unat_of_nat)
  also have "\<dots> = n mod (256 * 256 ^ k)" by (simp add: mod_mult2_eq)
  finally show ?case by simp
qed

lemma le_bytes_u16 [simp]: "of_nat (of_le (le_bytes 2 (unat (w :: u16)))) = w"
proof -
  have "unat w < 65536" by (rule order.strict_trans2 [OF unsigned_less]) simp
  then show ?thesis by (simp add: of_le_le_bytes)
qed

lemma le_bytes_u64 [simp]: "of_nat (of_le (le_bytes 8 (unat (w :: u64)))) = w"
proof -
  have "unat w < 18446744073709551616" by (rule order.strict_trans2 [OF unsigned_less]) simp
  then show ?thesis by (simp add: of_le_le_bytes)
qed

lemma char_of_byte_of_char [simp]: "char_of_byte (byte_of_char c) = c"
  by (simp add: char_of_byte_def byte_of_char_def unat_of_nat)

lemma length_packet_bytes:
  "length pad1 = 6 \<Longrightarrow> length pad2 = 6 \<Longrightarrow> packet_wf p \<Longrightarrow> length (packet_bytes pad1 pad2 p) = sizeof_Packet"
  by (simp add: packet_bytes_def packet_wf_def)

lemma packet_of_packet_bytes:
  assumes "length pad1 = 6" and "length pad2 = 6" and "packet_wf p"
  shows "packet_of_bytes (packet_bytes pad1 pad2 p @ junk) = p"
  using assms by (simp add: packet_of_bytes_def packet_bytes_def packet_wf_def comp_def)

lemma ntohs_htons [simp]: "ntohs (htons w) = w"
  by (rule bit_word_eqI) (auto simp: htons_def ntohs_def bit_simps)

lemma Receive_Send_port:
  "0 \<le> port a \<Longrightarrow> port a < 65536 \<Longrightarrow> uint (ntohs (sin_port (recipient_of os a))) = port a"
  by (simp add: recipient_of_def uint_word_of_int_eq take_bit_int_eq_self)

end
