(* ===== verification/Confirmation_Buffer.thy ===== *)
theory Confirmation_Buffer
  imports Wire
begin

text \<open>
  The buffer of state changes that wait for their confirmations
  (\<open>source/client/confirmation-buffer.hpp\<close>).  A pushed container holds one entry per replica;
  \<open>Confirm\<close> marks every entry with the given sequence number and calls the callback for every
  container that is complete.  The template's size \<open>N\<close> is the length of the pushed array.  The
  message pointers are never null in a pushed container (the only caller passes fresh objects)
  and the messages are immutable, so an entry holds the message itself.  The callback is the
  argument \<open>cb\<close>, \<open>None\<close> for an empty \<open>std::function\<close>; it works on a state of its own,
  since it has no access to the buffer.
\<close>

section \<open>Data and operations\<close>

record BaseMessage =
  sequenceNumber :: u64
  bm_packet :: "Packet option"

text \<open>The constructor with one argument leaves the packet indeterminate.\<close>

definition BaseMessage1 :: "u64 \<Rightarrow> BaseMessage" where
  "BaseMessage1 n = \<lparr>sequenceNumber = n, bm_packet = None\<rparr>"

definition BaseMessage2 :: "u64 \<Rightarrow> Packet \<Rightarrow> BaseMessage" where
  "BaseMessage2 n p = \<lparr>sequenceNumber = n, bm_packet = Some p\<rparr>"

definition GetPacket :: "BaseMessage \<Rightarrow> Packet res" where
  "GetPacket m = (case bm_packet m of None \<Rightarrow> Inl UninitialisedRead | Some p \<Rightarrow> Inr p)"

record ConfirmableItem =
  item :: BaseMessage
  confirmed :: bool

record ConfirmableContainer =
  content :: "ConfirmableItem list"
  originalSeqn :: u64
  originalHost :: "SocketAddress option"

type_synonym ConfirmationBuffer = "ConfirmableContainer list"

definition fresh_items :: "BaseMessage list \<Rightarrow> ConfirmableItem list" where
  "fresh_items items = map (\<lambda>m. \<lparr>item = m, confirmed = False\<rparr>) items"

text \<open>The three overloads of \<open>Push\<close>; the default host has an indeterminate port.\<close>

definition Push1 :: "BaseMessage list \<Rightarrow> ConfirmationBuffer \<Rightarrow> ConfirmationBuffer" where
  "Push1 items buffer =
     buffer @ [\<lparr>content = fresh_items items, originalSeqn = 0, originalHost = None\<rparr>]"

definition Push2 :: "BaseMessage list \<Rightarrow> u64 \<Rightarrow> ConfirmationBuffer \<Rightarrow> ConfirmationBuffer" where
  "Push2 items oseqn buffer =
     buffer @ [\<lparr>content = fresh_items items, originalSeqn = oseqn, originalHost = None\<rparr>]"

definition Push3 ::
  "BaseMessage list \<Rightarrow> u64 \<Rightarrow> SocketAddress \<Rightarrow> ConfirmationBuffer \<Rightarrow> ConfirmationBuffer" where
  "Push3 items oseqn host buffer =
     buffer @ [\<lparr>content = fresh_items items, originalSeqn = oseqn, originalHost = Some host\<rparr>]"

text \<open>The loop of \<open>ContainerConfirmed\<close>.\<close>

definition ContainerConfirmed :: "ConfirmableContainer \<Rightarrow> bool" where
  "ContainerConfirmed c =
     foldl (\<lambda>conf it. if confirmed it = False then False else conf) True (content c)"

text \<open>The inner loop of \<open>Confirm\<close>: the entries of one container and the running count.\<close>

fun confirm_items :: "u64 \<Rightarrow> ConfirmableItem list \<Rightarrow> int \<Rightarrow> ConfirmableItem list \<times> int" where
  "confirm_items n [] k = ([], k)"
| "confirm_items n (it # its) k =
     (if sequenceNumber (item it) = n
      then (let (its', k') = confirm_items n its (k + 1) in (it\<lparr>confirmed := True\<rparr> # its', k'))
      else (let (its', k') = confirm_items n its k in (it # its', k')))"

text \<open>The outer loop: after the entries of a container, the callback if it is complete.\<close>

fun Confirm_loop ::
  "(ConfirmableContainer \<Rightarrow> 's \<Rightarrow> 's res) option \<Rightarrow> u64 \<Rightarrow> ConfirmationBuffer \<Rightarrow> int \<Rightarrow> 's
    \<Rightarrow> (int \<times> ConfirmationBuffer \<times> 's) res" where
  "Confirm_loop cb n [] k s = Inr (k, [], s)"
| "Confirm_loop cb n (c # cs) k s =
     (let (its, k') = confirm_items n (content c) k; c' = c\<lparr>content := its\<rparr> in
      res_bind
        (if ContainerConfirmed c' then (case cb of None \<Rightarrow> Inr s | Some f \<Rightarrow> f c' s) else Inr s)
        (\<lambda>s'. res_bind (Confirm_loop cb n cs k' s')
          (\<lambda>(r, cs', s''). Inr (r, c' # cs', s''))))"

definition Confirm ::
  "(ConfirmableContainer \<Rightarrow> 's \<Rightarrow> 's res) option \<Rightarrow> u64 \<Rightarrow> ConfirmationBuffer \<Rightarrow> 's
    \<Rightarrow> (int \<times> ConfirmationBuffer \<times> 's) res" where
  "Confirm cb n buffer s = Confirm_loop cb n buffer 0 s"

section \<open>The reference behaviour\<close>

text \<open>Marking, as a function on one container.\<close>

definition mark :: "u64 \<Rightarrow> ConfirmableContainer \<Rightarrow> ConfirmableContainer" where
  "mark n c = c\<lparr>content :=
     map (\<lambda>it. if sequenceNumber (item it) = n then it\<lparr>confirmed := True\<rparr> else it) (content c)\<rparr>"

definition matches :: "u64 \<Rightarrow> ConfirmationBuffer \<Rightarrow> nat" where
  "matches n buffer =
     length (filter (\<lambda>it. sequenceNumber (item it) = n) (concat (map content buffer)))"

definition call_back :: "('c \<Rightarrow> 's \<Rightarrow> 's res) option \<Rightarrow> 'c \<Rightarrow> 's \<Rightarrow> 's res" where
  "call_back cb c s = (case cb of None \<Rightarrow> Inr s | Some f \<Rightarrow> f c s)"

lemma ContainerConfirmed_iff: "ContainerConfirmed c \<longleftrightarrow> (\<forall>it \<in> set (content c). confirmed it)"
proof -
  have "foldl (\<lambda>conf it. if confirmed it = False then False else conf) b its
      \<longleftrightarrow> b \<and> (\<forall>it \<in> set its. confirmed it)" for b its
    by (induction its arbitrary: b) auto
  from this [of True "content c"] show ?thesis by (simp only: ContainerConfirmed_def simp_thms)
qed

lemma confirm_items_eq:
  "confirm_items n its k =
    (map (\<lambda>it. if sequenceNumber (item it) = n then it\<lparr>confirmed := True\<rparr> else it) its,
     k + int (length (filter (\<lambda>it. sequenceNumber (item it) = n) its)))"
  by (induction n its k rule: confirm_items.induct) auto

lemma confirm_items_mark:
  "confirm_items n (content c) k =
    (content (mark n c), k + int (length (filter (\<lambda>it. sequenceNumber (item it) = n) (content c))))"
  by (simp add: confirm_items_eq mark_def)

lemma content_update_mark: "c\<lparr>content := content (mark n c)\<rparr> = mark n c"
  by (simp add: mark_def)

lemma Confirm_loop_eq:
  "Confirm_loop cb n buffer k s =
    res_bind (res_fold (call_back cb) (filter ContainerConfirmed (map (mark n) buffer)) s)
      (\<lambda>s'. Inr (k + int (matches n buffer), map (mark n) buffer, s'))"
proof (induction buffer arbitrary: k s)
  case Nil
  then show ?case by (simp add: matches_def)
next
  case (Cons c cs)
  have step: "Confirm_loop cb n (c # cs) k s =
      res_bind (if ContainerConfirmed (mark n c) then call_back cb (mark n c) s else Inr s)
        (\<lambda>s'. res_bind (Confirm_loop cb n cs
            (k + int (length (filter (\<lambda>it. sequenceNumber (item it) = n) (content c)))) s')
          (\<lambda>(r, cs', s''). Inr (r, mark n c # cs', s'')))"
    by (cases cb) (simp_all add: confirm_items_mark content_update_mark Let_def call_back_def)
  show ?case
    unfolding step
    by (simp add: Cons.IH res_bind_assoc matches_def add.assoc)
qed

text \<open>The interface the replication protocol relies on: slots that wait for a vote by key.\<close>

locale quorum_buffer =
  fixes push :: "'m list \<Rightarrow> 'b \<Rightarrow> 'b"
    and confirm :: "'k \<Rightarrow> 'b \<Rightarrow> 'b"
    and key :: "'m \<Rightarrow> 'k"
    and votes :: "'b \<Rightarrow> ('k \<times> bool) list list"
  assumes votes_push: "votes (push ms b) = votes b @ [map (\<lambda>m. (key m, False)) ms]"
    and votes_confirm: "votes (confirm k b) = map (map (\<lambda>(k', v). (k', v \<or> k' = k))) (votes b)"
begin

lemma votes_confirms:
  "votes (fold confirm ks b) = map (map (\<lambda>(k', v). (k', v \<or> k' \<in> set ks))) (votes b)"
proof (induction ks arbitrary: b)
  case Nil
  then show ?case by (simp add: map_idI split_def)
next
  case (Cons k ks)
  then show ?case by (auto simp: votes_confirm comp_def split_def)
qed

text \<open>A pushed group is complete exactly when all its keys were confirmed afterwards.\<close>

lemma complete_iff:
  "(\<forall>(k, v) \<in> set (last (votes (fold confirm ks (push ms b)))). v) \<longleftrightarrow> key ` set ms \<subseteq> set ks"
  by (auto simp: votes_confirms votes_push)

lemma confirm_monotone:
  "i < length (votes b) \<Longrightarrow> j < length (votes b ! i) \<Longrightarrow> snd (votes b ! i ! j)
   \<Longrightarrow> snd (votes (fold confirm ks b) ! i ! j)"
  by (simp add: votes_confirms split_def)

end

definition buffer_votes :: "ConfirmationBuffer \<Rightarrow> (u64 \<times> bool) list list" where
  "buffer_votes buffer =
     map (\<lambda>c. map (\<lambda>it. (sequenceNumber (item it), confirmed it)) (content c)) buffer"

interpretation cb: quorum_buffer
  "\<lambda>ms. Push3 ms n h" "\<lambda>k. map (mark k)" sequenceNumber buffer_votes
  for n :: u64 and h :: SocketAddress
  by unfold_locales (auto simp: buffer_votes_def Push3_def fresh_items_def mark_def)

lemma ContainerConfirmed_votes:
  "ContainerConfirmed c \<longleftrightarrow> (\<forall>(k, v) \<in> set (map (\<lambda>it. (sequenceNumber (item it), confirmed it)) (content c)). v)"
  by (auto simp: ContainerConfirmed_iff)

lemma mark_simps [simp]:
  "originalSeqn (mark n c) = originalSeqn c" "originalHost (mark n c) = originalHost c"
  "map item (content (mark n c)) = map item (content c)" "length (content (mark n c)) = length (content c)"
  by (auto simp: mark_def)

lemma mark_confirmed: "ContainerConfirmed c \<Longrightarrow> mark n c = c"
  by (cases c) (auto simp: mark_def ContainerConfirmed_iff intro!: map_idI)

section \<open>Properties\<close>

text \<open>
  C29.  \<open>Confirm\<close> agrees with its reference: it marks the entries with the given number in every
  container, returns how many entries it marked, and runs the callback once, in buffer order, on
  every container that is complete after the marking.
\<close>

theorem Confirm_reference:
  "Confirm cb n buffer s =
    res_bind (res_fold (call_back cb) (filter ContainerConfirmed (map (mark n) buffer)) s)
      (\<lambda>s'. Inr (int (matches n buffer), map (mark n) buffer, s'))"
  by (simp add: Confirm_def Confirm_loop_eq)

text \<open>
  A pushed container is complete after a sequence of confirmations exactly when the sequence
  number of each of its messages is among them, in whatever order they came and with whatever
  other confirmations in between.
\<close>

lemma pushed_complete_iff:
  "ContainerConfirmed (last (fold (\<lambda>k. map (mark k)) ks (Push3 items oseqn host buffer)))
    \<longleftrightarrow> sequenceNumber ` set items \<subseteq> set ks"
proof -
  let ?b = "fold (\<lambda>k. map (mark k)) ks (Push3 items oseqn host buffer)"
  have "length ?b = Suc (length buffer)"
  proof -
    have "length (fold (\<lambda>k. map (mark k)) ks b) = length b" for b by (induction ks arbitrary: b) auto
    then show ?thesis by (simp add: Push3_def)
  qed
  then have "?b \<noteq> []" by auto
  then have "ContainerConfirmed (last ?b) \<longleftrightarrow> (\<forall>(k, v) \<in> set (last (buffer_votes ?b)). v)"
    by (simp add: ContainerConfirmed_votes buffer_votes_def last_map)
  then show ?thesis by (simp only: cb.complete_iff)
qed

text \<open>
  Containers are never removed: once a container is complete, every later \<open>Confirm\<close>, also
  for a number that nobody waits for, runs the callback on it again.
\<close>

lemma Confirm_fires_again:
  assumes "c \<in> set buffer" and "ContainerConfirmed c"
  shows "\<exists>r buffer' cs. Confirm (Some (\<lambda>c log. Inr (log @ [c]))) n buffer [] = Inr (r, buffer', cs)
    \<and> c \<in> set cs \<and> c \<in> set buffer'"
proof -
  have log: "res_fold (call_back (Some (\<lambda>c log. Inr (log @ [c])))) cs l = Inr (l @ cs)"
    for cs l :: "ConfirmableContainer list"
    by (induction cs arbitrary: l) (auto simp: call_back_def)
  have "mark n c \<in> set (map (mark n) buffer)" using assms(1) by auto
  then have "c \<in> set (map (mark n) buffer)" by (simp only: mark_confirmed [OF assms(2)])
  then show ?thesis
    using assms(2) by (auto simp: Confirm_def Confirm_loop_eq log)
qed

end
