(* ===== verification/Replica.thy ===== *)
theory Replica
  imports Confirmation_Buffer
begin

text \<open>
  Replication (\<open>source/server/ReplicaManager.hpp\<close>, \<open>ReplicaManager.cpp\<close>).  The manager holds
  this server's peer entry, the list of peers from the \<open>PEERS\<close> variable and, on the primary, the
  buffer of state changes that wait for the confirmations of the secondaries.  Through its
  \<open>server\<close> pointer it uses the server's sequence counter and its socket: these members are the
  record \<open>ServerCore\<close>, which the server's record extends, together with the datagrams that left.
  The lemmas say which datagrams a broadcast sends, that the ACCEPT of a connection leaves
  exactly when all its confirmations have arrived, and that no confirmation counts twice.
\<close>

section \<open>Data\<close>

record ServerCore =
  lastSeqn :: u64
  srv_socket :: Socket
  sent :: "(sockaddr_in \<times> Packet) list"

record Peer =
  peer_address :: string
  peer_port :: int
  peer_primary :: bool

record ReplicaManager =
  thisPeer :: Peer
  peers :: "Peer list"
  confirmationBuffer :: "ConfirmationBuffer option"

definition GetSocketAddress :: "Peer \<Rightarrow> SocketAddress" where
  "GetSocketAddress p = \<lparr>address = peer_address p, port = peer_port p\<rparr>"

definition IsPrimary :: "ReplicaManager \<Rightarrow> bool" where
  "IsPrimary rm = peer_primary (thisPeer rm)"

text \<open>\<open>server->GetSocket()->Send(a, p)\<close>, \<open>GetLastSeqn\<close> and \<open>IncrementSeqn\<close>.\<close>

definition socket_send ::
  "Os \<Rightarrow> SocketAddress \<Rightarrow> Packet \<Rightarrow> 'z ServerCore_scheme \<Rightarrow> (int \<times> 'z ServerCore_scheme) res" where
  "socket_send os a p s =
     res_bind (Send os (srv_socket s) a p) (\<lambda>(r, out). Inr (r, s\<lparr>sent := sent s @ out\<rparr>))"

definition GetLastSeqn :: "'z ServerCore_scheme \<Rightarrow> u64" where
  "GetLastSeqn s = lastSeqn s"

definition IncrementSeqn :: "'z ServerCore_scheme \<Rightarrow> 'z ServerCore_scheme" where
  "IncrementSeqn s = s\<lparr>lastSeqn := lastSeqn s + 1\<rparr>"

section \<open>The list of peers\<close>

definition Split :: "string \<Rightarrow> char \<Rightarrow> string list" where
  "Split a delimiter = getlines delimiter a"

definition SplitPeerList :: "string \<Rightarrow> string list" where
  "SplitPeerList peerList = Split peerList CHR '',''"

text \<open>
  One entry \<open>ip:port:role\<close>.  Missing fields are read past the end of the vector; the handler
  around the loop catches \<open>const char*\<close>, which nothing in the loop throws.
\<close>

definition parse_peer :: "string \<Rightarrow> Peer res" where
  "parse_peer peer =
     (case Split peer CHR '':'' of
        ip # pt # role # _ \<Rightarrow>
          res_bind (atoi pt) (\<lambda>n. Inr \<lparr>peer_address = ip, peer_port = n, peer_primary = (c_str role = ''p'')\<rparr>)
      | _ \<Rightarrow> Inl IndexOutOfRange)"

definition ParsePeersArgument :: "string \<Rightarrow> Peer list res" where
  "ParsePeersArgument peersStr =
     res_fold (\<lambda>peer ps. res_bind (parse_peer peer) (\<lambda>p. Inr (ps @ [p]))) (Split peersStr CHR '','') []"

definition GetSecondaryReplicas :: "ReplicaManager \<Rightarrow> Peer list" where
  "GetSecondaryReplicas rm = filter (\<lambda>p. \<not> peer_primary p) (peers rm)"

definition GetPrimaryReplica :: "ReplicaManager \<Rightarrow> Peer res" where
  "GetPrimaryReplica rm =
     (if IsPrimary rm then Inr (thisPeer rm)
      else (case List.find peer_primary (peers rm) of
              Some p \<Rightarrow> Inr p
            | None \<Rightarrow> Inl (InvalidArgument ''No primary peer found'')))"

definition ReplicaManager_new :: "string \<Rightarrow> int \<Rightarrow> bool \<Rightarrow> string \<Rightarrow> ReplicaManager res" where
  "ReplicaManager_new a p primary peerList =
     res_bind (ParsePeersArgument peerList) (\<lambda>ps.
       Inr \<lparr>thisPeer = \<lparr>peer_address = a, peer_port = p, peer_primary = primary\<rparr>, peers = ps,
            confirmationBuffer = (if primary then Some [] else None)\<rparr>)"

section \<open>State changes\<close>

text \<open>The callback that the constructor gives to the buffer.\<close>

definition confirmation_callback ::
  "Os \<Rightarrow> ConfirmableContainer \<Rightarrow> 'z ServerCore_scheme \<Rightarrow> 'z ServerCore_scheme res" where
  "confirmation_callback os container s =
     (case content container of
        [] \<Rightarrow> Inl IndexOutOfRange
      | it # _ \<Rightarrow>
          res_bind (GetPacket (item it)) (\<lambda>message.
            if ptype message = PACKET_CONNECT_CMD then
              (case originalHost container of
                 None \<Rightarrow> Inl UninitialisedRead
               | Some host \<Rightarrow>
                   res_bind (socket_send os host (MakeAcceptConnCommand (os_time os) (originalSeqn container)) s)
                     (\<lambda>(r, s'). Inr s'))
            else Inr s))"

text \<open>The sending loop of \<open>BroadcastToSecondaries\<close>.\<close>

fun broadcast_loop ::
  "Os \<Rightarrow> u64 \<Rightarrow> Peer list \<Rightarrow> nat \<Rightarrow> Packet \<Rightarrow> 'z ServerCore_scheme \<Rightarrow> 'z ServerCore_scheme res" where
  "broadcast_loop os lastSeqnTemp [] i message s = Inr s"
| "broadcast_loop os lastSeqnTemp (peer # ps) i message s =
     (let message' = message\<lparr>seqn := lastSeqnTemp + of_nat i\<rparr> in
      res_bind (socket_send os (GetSocketAddress peer) message' s)
        (\<lambda>(r, s'). broadcast_loop os lastSeqnTemp ps (Suc i) message' s'))"

definition BroadcastToSecondaries ::
  "Os \<Rightarrow> Packet \<Rightarrow> SocketAddress \<Rightarrow> ReplicaManager \<Rightarrow> 'z ServerCore_scheme
    \<Rightarrow> (ReplicaManager \<times> 'z ServerCore_scheme) res" where
  "BroadcastToSecondaries os message senderAddress rm s =
     (let secondaries = GetSecondaryReplicas rm;
          n = GetLastSeqn s;
          messages = [BaseMessage2 n message, BaseMessage2 (n + 1) message, BaseMessage2 (n + 2) message];
          s1 = IncrementSeqn (IncrementSeqn (IncrementSeqn s))
      in (case confirmationBuffer rm of
            None \<Rightarrow> Inl NullDereference
          | Some buffer \<Rightarrow>
              res_bind (broadcast_loop os n secondaries 0 message s1) (\<lambda>s2.
                Inr (rm\<lparr>confirmationBuffer := Some (Push3 messages (seqn message) senderAddress buffer)\<rparr>, s2))))"

definition ConfirmMessage ::
  "Os \<Rightarrow> u64 \<Rightarrow> ReplicaManager \<Rightarrow> 'z ServerCore_scheme \<Rightarrow> (ReplicaManager \<times> 'z ServerCore_scheme) res" where
  "ConfirmMessage os n rm s =
     (if IsPrimary rm then
        (case confirmationBuffer rm of
           None \<Rightarrow> Inl NullDereference
         | Some buffer \<Rightarrow>
             res_bind (Confirm (Some (confirmation_callback os)) n buffer s) (\<lambda>(k, buffer', s').
               Inr (rm\<lparr>confirmationBuffer := Some buffer'\<rparr>, s')))
      else
        res_bind (GetPrimaryReplica rm) (\<lambda>primaryReplica.
          res_bind (socket_send os (GetSocketAddress primaryReplica)
              (MakeConfirmStateChangeMessage (os_time os) n) s)
            (\<lambda>(r, s'). Inr (rm, s'))))"

section \<open>What leaves the socket\<close>

definition delivers :: "Os \<Rightarrow> Socket \<Rightarrow> SocketAddress \<Rightarrow> Packet \<Rightarrow> bool" where
  "delivers os sk a p \<longleftrightarrow> 0 \<le> socketDesc sk \<and> 0 \<le> os_sendto os (recipient_of os a) p"

definition datagrams ::
  "Os \<Rightarrow> Socket \<Rightarrow> (SocketAddress \<times> Packet) list \<Rightarrow> (sockaddr_in \<times> Packet) list" where
  "datagrams os sk aps = map (\<lambda>(a, p). (recipient_of os a, p)) (filter (\<lambda>(a, p). delivers os sk a p) aps)"

definition nameable :: "u16 \<Rightarrow> bool" where
  "nameable t \<longleftrightarrow> (\<exists>n. TypeToStr t = Inr n)"

lemma nameable_types [simp]:
  "nameable PACKET_CONNECT_CMD" "nameable PACKET_ACCEPT_CONN_CMD" "nameable PACKET_NOTIFICATION"
  "nameable PACKET_CONFIRM_STATE_CHANGE" "nameable PACKET_INFO"
  by (auto simp: nameable_def TypeToStr_def)

lemma datagrams_simps [simp]:
  "datagrams os sk [] = []" "datagrams os sk (xs @ ys) = datagrams os sk xs @ datagrams os sk ys"
  "datagrams os sk ((a, p) # xs) =
    (if delivers os sk a p then [(recipient_of os a, p)] else []) @ datagrams os sk xs"
  by (auto simp: datagrams_def)

lemma socket_send_eq:
  assumes "nameable (ptype p)"
  shows "\<exists>r. socket_send os a p s = Inr (r, s\<lparr>sent := sent s @ datagrams os (srv_socket s) [(a, p)]\<rparr>)"
  using assms
  by (auto simp: socket_send_def Send_def Let_def nameable_def delivers_def)

lemma broadcast_loop_eq:
  assumes "nameable (ptype m)"
  shows "broadcast_loop os base ps i m s = Inr (s\<lparr>sent := sent s @ datagrams os (srv_socket s)
    (map (\<lambda>(j, p). (GetSocketAddress p, m\<lparr>seqn := base + of_nat j\<rparr>)) (enumerate i ps))\<rparr>)"
  using assms
proof (induction ps arbitrary: i m s)
  case Nil
  then show ?case by simp
next
  case (Cons p ps)
  let ?m = "m\<lparr>seqn := base + of_nat i\<rparr>"
  obtain r where "socket_send os (GetSocketAddress p) ?m s =
      Inr (r, s\<lparr>sent := sent s @ datagrams os (srv_socket s) [(GetSocketAddress p, ?m)]\<rparr>)"
    using socket_send_eq [of ?m os "GetSocketAddress p" s] Cons.prems by fastforce
  then show ?case using Cons by (simp add: Let_def)
qed

section \<open>Invariant\<close>

text \<open>A pending state change as \<open>BroadcastToSecondaries\<close> pushes it for a connection.\<close>

definition pending_ok :: "ConfirmableContainer \<Rightarrow> bool" where
  "pending_ok c \<longleftrightarrow> (\<exists>m h. length (content c) = 3 \<and> originalHost c = Some h \<and> ptype m = PACKET_CONNECT_CMD \<and>
     (\<forall>it \<in> set (content c). bm_packet (item it) = Some m))"

definition replica_inv :: "ReplicaManager \<Rightarrow> bool" where
  "replica_inv rm \<longleftrightarrow>
     (case confirmationBuffer rm of None \<Rightarrow> \<not> IsPrimary rm | Some b \<Rightarrow> IsPrimary rm \<and> list_all pending_ok b)"

text \<open>The numbers of the entries, and the reply that a complete entry triggers.\<close>

definition awaited :: "ConfirmationBuffer \<Rightarrow> u64 list" where
  "awaited b = concat (map (\<lambda>c. map (\<lambda>it. sequenceNumber (item it)) (content c)) b)"

definition accept_of :: "Os \<Rightarrow> ConfirmableContainer \<Rightarrow> SocketAddress \<times> Packet" where
  "accept_of os c = (the (originalHost c), MakeAcceptConnCommand (os_time os) (originalSeqn c))"

lemma mark_pending_ok [simp]: "pending_ok (mark k c) = pending_ok c"
proof -
  have q: "(\<forall>it \<in> set (content x). bm_packet (item it) = Some m) \<longleftrightarrow>
      (\<forall>i \<in> set (map item (content x)). bm_packet i = Some m)" for x m by simp
  show ?thesis unfolding pending_ok_def q by (simp only: mark_simps)
qed

lemma accept_of_mark [simp]: "accept_of os (mark k c) = accept_of os c"
  by (simp add: accept_of_def)

lemma awaited_mark [simp]: "awaited (map (mark k) b) = awaited b"
  by (auto simp: awaited_def mark_def comp_def intro!: arg_cong [of _ _ concat])

lemma IsPrimary_update [simp]: "IsPrimary (rm\<lparr>confirmationBuffer := b\<rparr>) = IsPrimary rm"
  "GetSecondaryReplicas (rm\<lparr>confirmationBuffer := b\<rparr>) = GetSecondaryReplicas rm"
  by (simp_all add: IsPrimary_def GetSecondaryReplicas_def)

lemma callback_pending:
  assumes "pending_ok c"
  shows "confirmation_callback os c s =
    Inr (s\<lparr>sent := sent s @ datagrams os (srv_socket s) [accept_of os c]\<rparr>)"
proof -
  obtain m h it its where c: "content c = it # its" "originalHost c = Some h" "ptype m = PACKET_CONNECT_CMD"
    "bm_packet (item it) = Some m"
    using assms by (cases "content c") (auto simp: pending_ok_def)
  obtain r where "socket_send os h (MakeAcceptConnCommand (os_time os) (originalSeqn c)) s =
      Inr (r, s\<lparr>sent := sent s @ datagrams os (srv_socket s)
        [(h, MakeAcceptConnCommand (os_time os) (originalSeqn c))]\<rparr>)"
    using socket_send_eq [of "MakeAcceptConnCommand (os_time os) (originalSeqn c)" os h s]
    by (fastforce simp: MakeAcceptConnCommand_def)
  with c show ?thesis by (simp add: confirmation_callback_def GetPacket_def accept_of_def)
qed

lemma callbacks_pending:
  assumes "list_all pending_ok cs"
  shows "res_fold (call_back (Some (confirmation_callback os))) cs s =
    Inr (s\<lparr>sent := sent s @ datagrams os (srv_socket s) (map (accept_of os) cs)\<rparr>)"
  using assms
proof (induction cs arbitrary: s)
  case Nil
  then show ?case by simp
next
  case (Cons c cs)
  then show ?case by (cases "accept_of os c") (simp add: call_back_def callback_pending)
qed

lemma ConfirmMessage_primary:
  assumes "replica_inv rm" and "confirmationBuffer rm = Some b"
  shows "ConfirmMessage os k rm s =
    Inr (rm\<lparr>confirmationBuffer := Some (map (mark k) b)\<rparr>,
         s\<lparr>sent := sent s @ datagrams os (srv_socket s)
             (map (accept_of os) (filter ContainerConfirmed (map (mark k) b)))\<rparr>)"
proof -
  have ok: "list_all pending_ok (filter ContainerConfirmed (map (mark k) b))" and p: "IsPrimary rm"
    using assms by (auto simp: replica_inv_def list_all_iff)
  show ?thesis
    using callbacks_pending [OF ok, of os s] assms(2) p by (simp add: ConfirmMessage_def Confirm_def Confirm_loop_eq)
qed

lemma BroadcastToSecondaries_eq:
  assumes "ptype m = PACKET_CONNECT_CMD" and "confirmationBuffer rm = Some b"
  shows "BroadcastToSecondaries os m a rm s =
    Inr (rm\<lparr>confirmationBuffer := Some (Push3 (map (\<lambda>n. BaseMessage2 n m)
          [lastSeqn s, lastSeqn s + 1, lastSeqn s + 2]) (seqn m) a b)\<rparr>,
         s\<lparr>lastSeqn := lastSeqn s + 3, sent := sent s @ datagrams os (srv_socket s)
            (map (\<lambda>(i, p). (GetSocketAddress p, m\<lparr>seqn := lastSeqn s + of_nat i\<rparr>))
              (enumerate 0 (GetSecondaryReplicas rm)))\<rparr>)"
  using assms
  by (simp add: BroadcastToSecondaries_def Let_def IncrementSeqn_def GetLastSeqn_def broadcast_loop_eq add.assoc)

lemma replica_inv_Broadcast [inv_rules]:
  assumes "replica_inv rm" and "ptype m = PACKET_CONNECT_CMD" and "IsPrimary rm"
    and "BroadcastToSecondaries os m a rm s = Inr (rm', s')"
  shows "replica_inv rm'"
proof -
  obtain b where "confirmationBuffer rm = Some b" using assms(1,3) by (auto simp: replica_inv_def split: option.splits)
  with assms show ?thesis
    by (auto simp: BroadcastToSecondaries_eq replica_inv_def list_all_iff Push3_def fresh_items_def pending_ok_def
        BaseMessage2_def)
qed

lemma replica_inv_Confirm [inv_rules]:
  assumes "replica_inv rm" and "ConfirmMessage os k rm s = Inr (rm', s')"
  shows "replica_inv rm'"
proof (cases "confirmationBuffer rm")
  case None
  with assms have "rm' = rm" by (auto simp: replica_inv_def ConfirmMessage_def res_simps)
  with assms show ?thesis by simp
next
  case (Some b)
  with ConfirmMessage_primary [OF assms(1) Some, of os k s] assms show ?thesis
    by (auto simp: replica_inv_def list_all_iff)
qed

section \<open>A sequence of confirmations\<close>

lemma mem_image_filter: "y \<in> f ` {c \<in> S. P c} \<longleftrightarrow> (\<exists>c \<in> S. P c \<and> f c = y)"
  by auto

definition confirm_all ::
  "Os \<Rightarrow> u64 list \<Rightarrow> ReplicaManager \<Rightarrow> 'z ServerCore_scheme \<Rightarrow> (ReplicaManager \<times> 'z ServerCore_scheme) res" where
  "confirm_all os ks rm s = res_fold (\<lambda>k (rm, s). ConfirmMessage os k rm s) ks (rm, s)"

text \<open>The replies that the confirmations \<open>ks\<close> trigger on a buffer, in order.\<close>

fun accepts :: "Os \<Rightarrow> u64 list \<Rightarrow> ConfirmationBuffer \<Rightarrow> (SocketAddress \<times> Packet) list" where
  "accepts os [] b = []"
| "accepts os (k # ks) b =
     map (accept_of os) (filter ContainerConfirmed (map (mark k) b)) @ accepts os ks (map (mark k) b)"

lemma confirm_all_eq:
  assumes "replica_inv rm" and "confirmationBuffer rm = Some b"
  shows "confirm_all os ks rm s =
    Inr (rm\<lparr>confirmationBuffer := Some (fold (\<lambda>k. map (mark k)) ks b)\<rparr>,
         s\<lparr>sent := sent s @ datagrams os (srv_socket s) (accepts os ks b)\<rparr>)"
  using assms
proof (induction ks arbitrary: rm b s)
  case Nil
  then show ?case by (simp add: confirm_all_def)
next
  case (Cons k ks)
  note c = ConfirmMessage_primary [OF Cons.prems, of os k s]
  have "replica_inv (rm\<lparr>confirmationBuffer := Some (map (mark k) b)\<rparr>)"
    using replica_inv_Confirm [OF Cons.prems(1) c] .
  from Cons.IH [OF this, of "map (mark k) b"] c show ?case by (simp add: confirm_all_def)
qed

lemma mark_ContainerConfirmed: "ContainerConfirmed c \<Longrightarrow> ContainerConfirmed (mark k c)"
  by (simp add: mark_confirmed)

lemma fold_marks: "fold (\<lambda>k. map (mark k)) ks b = map (fold mark ks) b"
  by (induction ks arbitrary: b) (auto simp: comp_def)

text \<open>A reply is among those of \<open>ks\<close> exactly when its container is complete at the end.\<close>

lemma set_accepts:
  "ks \<noteq> [] \<Longrightarrow> set (accepts os ks b) = accept_of os ` {c \<in> set b. ContainerConfirmed (fold mark ks c)}"
proof (induction ks arbitrary: b)
  case Nil
  then show ?case by simp
next
  case (Cons k ks)
  have mono: "ContainerConfirmed c \<Longrightarrow> ContainerConfirmed (fold mark ks c)" for c
    by (induction ks arbitrary: c) (auto simp: mark_ContainerConfirmed)
  have img: "accept_of os ` {c \<in> mark k ` set b. P c} = accept_of os ` {c \<in> set b. P (mark k c)}" for P
  proof -
    have "{c \<in> mark k ` set b. P c} = mark k ` {c \<in> set b. P (mark k c)}" by auto
    then show ?thesis by (simp add: image_image)
  qed
  show ?case
  proof (cases "ks = []")
    case True
    then show ?thesis by (auto simp: img)
  next
    case False
    show ?thesis using Cons.IH [OF False] mono by (auto simp: img)
  qed
qed

lemma awaited_complete: "ContainerConfirmed (fold mark ks c) \<longleftrightarrow>
    (\<forall>it \<in> set (content c). confirmed it \<or> sequenceNumber (item it) \<in> set ks)"
proof (induction ks arbitrary: c)
  case Nil
  then show ?case by (simp add: ContainerConfirmed_iff)
next
  case (Cons k ks)
  then show ?case by (auto simp: mark_def)
qed

definition numbers_ok :: "ConfirmationBuffer \<Rightarrow> u64 \<Rightarrow> bool" where
  "numbers_ok b n \<longleftrightarrow> distinct (awaited b) \<and> (\<forall>k \<in> set (awaited b). k < n)"

lemma awaited_simps [simp]:
  "awaited [] = []" "awaited (xs @ ys) = awaited xs @ awaited ys"
  "awaited (Push3 ms n h b) = awaited b @ map sequenceNumber ms"
  by (simp_all add: awaited_def Push3_def fresh_items_def comp_def)

lemma matches_le_1: "distinct (awaited b) \<Longrightarrow> matches k b \<le> 1"
proof -
  assume d: "distinct (awaited b)"
  have "matches k b = length (filter (\<lambda>n. n = k) (awaited b))"
    by (simp add: matches_def awaited_def filter_concat map_concat comp_def filter_map length_concat)
  also have "\<dots> = count (mset (awaited b)) k" by (simp add: count_mset length_filter_conv_card count_list_eq_length_filter eq_commute)
  also have "\<dots> \<le> 1" using d by (simp add: distinct_count_atmost_1)
  finally show ?thesis .
qed

text \<open>
  The reply of a pushed entry, as the datagram that leaves, among entries for other recipients or
  other requests.
\<close>

definition other_request :: "Os \<Rightarrow> SocketAddress \<Rightarrow> u64 \<Rightarrow> ConfirmableContainer \<Rightarrow> bool" where
  "other_request os a q c \<longleftrightarrow> recipient_of os (the (originalHost c)) \<noteq> recipient_of os a \<or> originalSeqn c \<noteq> q"

lemma MakeAccept_inj: "MakeAcceptConnCommand t q = MakeAcceptConnCommand t q' \<longleftrightarrow> q = q'"
  by (auto simp: MakeAcceptConnCommand_def dest: arg_cong [of _ _ seqn])

lemma accepts_pushed:
  assumes "\<forall>c \<in> set b. other_request os a q c" and "ns \<noteq> []"
  shows "(recipient_of os a, MakeAcceptConnCommand (os_time os) q)
      \<in> (\<lambda>(h, p). (recipient_of os h, p)) ` set (accepts os ks (Push3 (map (\<lambda>n. BaseMessage2 n m) ns) q a b))
    \<longleftrightarrow> set ns \<subseteq> set ks"
proof (cases "ks = []")
  case True
  then show ?thesis using assms(2) by simp
next
  case False
  let ?acc = "(recipient_of os a, MakeAcceptConnCommand (os_time os) q)"
  let ?dg = "\<lambda>c. (recipient_of os (the (originalHost c)), MakeAcceptConnCommand (os_time os) (originalSeqn c))"
  let ?c = "\<lparr>content = fresh_items (map (\<lambda>n. BaseMessage2 n m) ns), originalSeqn = q, originalHost = Some a\<rparr>"
  have b: "set (Push3 (map (\<lambda>n. BaseMessage2 n m) ns) q a b) = insert ?c (set b)" by (simp add: Push3_def)
  have "ContainerConfirmed (fold mark ks ?c) \<longleftrightarrow> set ns \<subseteq> set ks"
    by (auto simp: awaited_complete fresh_items_def BaseMessage2_def)
  moreover have "?dg c \<noteq> ?acc" if "c \<in> set b" for c
    using assms(1) that by (auto simp: other_request_def MakeAccept_inj)
  moreover have "?acc \<in> (\<lambda>(h, p). (recipient_of os h, p)) ` set (accepts os ks (Push3 (map (\<lambda>n. BaseMessage2 n m) ns) q a b)) \<longleftrightarrow>
      (\<exists>c \<in> insert ?c (set b). ContainerConfirmed (fold mark ks c) \<and> ?dg c = ?acc)"
    by (simp only: set_accepts [OF False] image_image mem_image_filter b accept_of_def prod.case)
  ultimately show ?thesis by auto
qed

lemma datagrams_delivered:
  "\<forall>a p. delivers os sk a p \<Longrightarrow> datagrams os sk xs = map (\<lambda>(h, p). (recipient_of os h, p)) xs"
  by (simp add: datagrams_def split_def)

lemma accept_replies:
  assumes "replica_inv rm" and "confirmationBuffer rm = Some b" and "ptype m = PACKET_CONNECT_CMD"
    and "\<forall>a p. delivers os (srv_socket s) a p" and "\<forall>c \<in> set b. other_request os a (seqn m) c"
  shows "\<exists>rm1 s1 rm2 s2 new. BroadcastToSecondaries os m a rm s = Inr (rm1, s1) \<and>
    confirm_all os ks rm1 s1 = Inr (rm2, s2) \<and> sent s2 = sent s1 @ new \<and>
    ((recipient_of os a, MakeAcceptConnCommand (os_time os) (seqn m)) \<in> set new \<longleftrightarrow>
      {lastSeqn s, lastSeqn s + 1, lastSeqn s + 2} \<subseteq> set ks)"
proof -
  note e = BroadcastToSecondaries_eq [OF assms(3,2), of os a s]
  let ?ms = "map (\<lambda>n. BaseMessage2 n m) [lastSeqn s, lastSeqn s + 1, lastSeqn s + 2]"
  let ?b = "Push3 ?ms (seqn m) a b"
  let ?rm = "rm\<lparr>confirmationBuffer := Some ?b\<rparr>"
  let ?acc = "(recipient_of os a, MakeAcceptConnCommand (os_time os) (seqn m))"
  have "IsPrimary rm" using assms(1,2) by (simp add: replica_inv_def)
  then have inv: "replica_inv ?rm" using replica_inv_Broadcast [OF assms(1,3) _ e] by simp
  obtain s1 where s1: "BroadcastToSecondaries os m a rm s = Inr (?rm, s1)" "srv_socket s1 = srv_socket s"
    using e by simp
  have acc: "?acc \<in> set (datagrams os (srv_socket s1) (accepts os ks ?b)) \<longleftrightarrow>
      {lastSeqn s, lastSeqn s + 1, lastSeqn s + 2} \<subseteq> set ks"
    using accepts_pushed [OF assms(5), of "[lastSeqn s, lastSeqn s + 1, lastSeqn s + 2]" ks m] assms(4)
    by (simp add: s1(2) datagrams_delivered)
  have conf: "confirm_all os ks ?rm s1 = Inr (?rm\<lparr>confirmationBuffer := Some (fold (\<lambda>k. map (mark k)) ks ?b)\<rparr>,
      s1\<lparr>sent := sent s1 @ datagrams os (srv_socket s1) (accepts os ks ?b)\<rparr>)"
    by (rule confirm_all_eq [OF inv]) simp
  have "sent (s1\<lparr>sent := sent s1 @ datagrams os (srv_socket s1) (accepts os ks ?b)\<rparr>) =
      sent s1 @ datagrams os (srv_socket s1) (accepts os ks ?b)" by simp
  with s1(1) conf acc show ?thesis by blast
qed

text \<open>The text of a peer entry.\<close>

definition peer_text :: "Peer \<Rightarrow> string" where
  "peer_text p = peer_address p @ '':'' @ show_nat (nat (peer_port p)) @ '':'' @ (if peer_primary p then ''p'' else ''s'')"

definition peer_ok :: "Peer \<Rightarrow> bool" where
  "peer_ok p \<longleftrightarrow> CHR '':'' \<notin> set (peer_address p) \<and> CHR '','' \<notin> set (peer_address p) \<and>
     0 \<le> peer_port p \<and> peer_port p \<le> INT_MAX"

lemma show_nat_no_delim: "CHR '':'' \<notin> set (show_nat n)" "CHR '','' \<notin> set (show_nat n)"
  using show_nat_digits [of n] by (auto simp: isdigit_def)

lemma parse_peer_text: "peer_ok p \<Longrightarrow> parse_peer (peer_text p) = Inr p"
proof -
  assume ok: "peer_ok p"
  then have "Split (peer_text p) CHR '':'' =
      [peer_address p, show_nat (nat (peer_port p)), if peer_primary p then ''p'' else ''s'']"
    by (auto simp: Split_def peer_text_def peer_ok_def getlines_delim getlines_last show_nat_no_delim)
  with ok show ?thesis
    by (cases p) (auto simp: parse_peer_def peer_ok_def c_str_id NUL_def)
qed

lemma ParsePeers_texts:
  assumes "\<forall>p \<in> set ps. peer_ok p"
  shows "ParsePeersArgument (join_with CHR '','' (map peer_text ps)) = Inr ps"
proof -
  have free: "CHR '','' \<notin> set (peer_text p)" "peer_text p \<noteq> []" if "peer_ok p" for p
    using that show_nat_no_delim by (auto simp: peer_text_def peer_ok_def)
  then have "Split (join_with CHR '','' (map peer_text ps)) CHR '','' = map peer_text ps"
    unfolding Split_def using assms by (intro getlines_join) (auto simp: last_map)
  moreover have "res_fold (\<lambda>peer ps. res_bind (parse_peer peer) (\<lambda>p. Inr (ps @ [p]))) (map peer_text ps) acc
      = Inr (acc @ ps)" for acc
    using assms by (induction ps arbitrary: acc) (auto simp: parse_peer_text)
  ultimately show ?thesis by (simp add: ParsePeersArgument_def)
qed

text \<open>A primary with three secondaries and a network that takes every datagram.\<close>

definition example_os :: Os where
  "example_os = \<lparr>os_time = 1600000000, os_sendto = (\<lambda>_ _. 544), os_inet_addr = (\<lambda>s. of_nat (length s)),
     os_inet_ntoa = (\<lambda>_. ''127.0.0.1'')\<rparr>"

definition example_primary :: ReplicaManager where
  "example_primary =
     \<lparr>thisPeer = \<lparr>peer_address = ''127.0.0.1'', peer_port = 4000, peer_primary = True\<rparr>,
      peers = map (\<lambda>p. \<lparr>peer_address = ''127.0.0.1'', peer_port = p, peer_primary = False\<rparr>) [4001, 4002, 4003],
      confirmationBuffer = Some []\<rparr>"

definition example_core :: ServerCore where
  "example_core = \<lparr>lastSeqn = 7, srv_socket = Socket_new 3, sent = []\<rparr>"

definition example_connect :: Packet where
  "example_connect = projr (MakeConnectCommand 1600000000 0 ''ana'')"

abbreviation (input) example_client :: SocketAddress where
  "example_client \<equiv> \<lparr>address = ''10.0.0.1'', port = 5000\<rparr>"

lemma example_facts [simp]:
  "replica_inv example_primary" "confirmationBuffer example_primary = Some []"
  "length (GetSecondaryReplicas example_primary) = 3" "delivers example_os (srv_socket example_core) a p"
  "lastSeqn example_core = 7" "IsPrimary example_primary"
  by (simp_all add: example_primary_def example_os_def example_core_def replica_inv_def IsPrimary_def
      GetSecondaryReplicas_def delivers_def Socket_new_def)

lemma example_connect_facts [simp]: "ptype example_connect = PACKET_CONNECT_CMD"
  "packet_text example_connect = Inr ''ana''" "seqn example_connect = 1" "packet_wf example_connect"
proof -
  obtain p where "MakeConnectCommand 1600000000 0 ''ana'' = Inr p" "packet_text p = Inr ''ana''"
    "ptype p = PACKET_CONNECT_CMD" "seqn p = 0 + 1" "packet_wf p"
    using Make_init [of "''ana''" 1600000000 PACKET_CONNECT_CMD "0 + 1" "length ''ana''"]
    by (auto simp: MakeConnectCommand_def NUL_def)
  then show "ptype example_connect = PACKET_CONNECT_CMD" "packet_text example_connect = Inr ''ana''"
    "seqn example_connect = 1" "packet_wf example_connect"
    by (simp_all add: example_connect_def)
qed

section \<open>Properties\<close>

text \<open>
  A broadcast with three secondaries: when the socket sends, exactly one copy of the message
  leaves for each secondary, in their order, and the numbers on the copies are exactly the
  numbers the new entry waits for; the entry remembers the client's address and the number of its
  request, is not complete, and the counter is advanced past the numbers.
\<close>

lemma Broadcast_three_secondaries:
  assumes "replica_inv rm" and "confirmationBuffer rm = Some b" and "ptype m = PACKET_CONNECT_CMD"
    and "length (GetSecondaryReplicas rm) = 3" and "\<forall>a p. delivers os (srv_socket s) a p"
  shows "\<exists>rm' s' c out. BroadcastToSecondaries os m a rm s = Inr (rm', s') \<and> replica_inv rm' \<and>
    confirmationBuffer rm' = Some (b @ [c]) \<and> sent s' = sent s @ out \<and> lastSeqn s' = lastSeqn s + 3 \<and>
    map fst out = map (\<lambda>p. recipient_of os (GetSocketAddress p)) (GetSecondaryReplicas rm) \<and>
    map (\<lambda>(_, p). seqn p) out = awaited [c] \<and> (\<forall>(_, p) \<in> set out. payload p = payload m \<and> ptype p = ptype m) \<and>
    originalHost c = Some a \<and> originalSeqn c = seqn m \<and> \<not> ContainerConfirmed c"
proof -
  obtain p q r where s: "GetSecondaryReplicas rm = [p, q, r]"
    using assms(4) by (auto simp: numeral_3_eq_3 length_Suc_conv)
  note e = BroadcastToSecondaries_eq [OF assms(3,2), of os a s]
  have "IsPrimary rm" using assms(1,2) by (simp add: replica_inv_def)
  then have inv: "replica_inv (fst (projr (BroadcastToSecondaries os m a rm s)))"
    using replica_inv_Broadcast [OF assms(1,3) _ e] e by simp
  show ?thesis
    by (intro exI conjI, rule e)
      (use inv assms(3,5) in \<open>auto simp: e s Push3_def fresh_items_def awaited_def BaseMessage2_def ContainerConfirmed_iff\<close>)
qed

text \<open>
  C12.  The client is accepted exactly when all confirmations are in: after a broadcast for the
  request of the client at \<open>a\<close>, a sequence of confirmations in any order, with repetitions and
  with confirmations for other requests in between, is handled without failure, and the datagram
  with the ACCEPT for this request to this client is among those that leave the socket meanwhile
  if and only if the three numbers of the request are among the confirmations.  The sockets work,
  and no earlier entry is for the same recipient and the same number (its ACCEPT would be the same
  datagram).
\<close>

theorem accept_iff_confirmed:
  assumes "replica_inv rm" and "confirmationBuffer rm = Some b" and "ptype m = PACKET_CONNECT_CMD"
    and "\<forall>a p. delivers os (srv_socket s) a p" and "\<forall>c \<in> set b. other_request os a (seqn m) c"
  shows "\<exists>rm1 s1 rm2 s2 new. BroadcastToSecondaries os m a rm s = Inr (rm1, s1) \<and>
    confirm_all os ks rm1 s1 = Inr (rm2, s2) \<and> sent s2 = sent s1 @ new \<and>
    ((recipient_of os a, MakeAcceptConnCommand (os_time os) (seqn m)) \<in> set new \<longleftrightarrow>
      {lastSeqn s, lastSeqn s + 1, lastSeqn s + 2} \<subseteq> set ks)"
  using accept_replies [OF assms] .

theorem accept_iff_confirmed_witness:
  "(\<exists>rm1 s1 rm2 s2 new.
    BroadcastToSecondaries example_os example_connect example_client example_primary example_core = Inr (rm1, s1) \<and>
    confirm_all example_os [8, 20, 7, 9] rm1 s1 = Inr (rm2, s2) \<and> sent s2 = sent s1 @ new \<and>
    (recipient_of example_os example_client, MakeAcceptConnCommand (os_time example_os) 1) \<in> set new) \<and>
   (\<exists>rm1 s1 rm2 s2 new.
    BroadcastToSecondaries example_os example_connect example_client example_primary example_core = Inr (rm1, s1) \<and>
    confirm_all example_os [8, 20, 8, 9] rm1 s1 = Inr (rm2, s2) \<and> sent s2 = sent s1 @ new \<and>
    (recipient_of example_os example_client, MakeAcceptConnCommand (os_time example_os) 1) \<notin> set new)"
  using accept_iff_confirmed [of example_primary "[]" example_connect example_os example_core example_client "[8, 20, 7, 9]"]
    accept_iff_confirmed [of example_primary "[]" example_connect example_os example_core example_client "[8, 20, 8, 9]"]
  by simp

text \<open>
  C25.  With fewer than three secondaries no client is ever accepted: when the confirmations answer
  only numbers that were sent, for this request or for earlier ones, no datagram with the ACCEPT
  for the request leaves for the client, however many arrive, as long as the counter does not wrap
  around and no earlier entry is for the same recipient and number.
\<close>

theorem few_secondaries_no_accept:
  assumes "replica_inv rm" and "confirmationBuffer rm = Some b" and "ptype m = PACKET_CONNECT_CMD"
    and "\<forall>a p. delivers os (srv_socket s) a p" and "\<forall>c \<in> set b. other_request os a (seqn m) c"
    and "length (GetSecondaryReplicas rm) < 3" and "unat (lastSeqn s) + 3 < 2 ^ 64"
    and "BroadcastToSecondaries os m a rm s = Inr (rm1, s1)" and "sent s1 = sent s @ out"
    and "\<forall>k \<in> set ks. k < lastSeqn s \<or> k \<in> (\<lambda>(_, p). seqn p) ` set out"
  shows "\<exists>rm2 s2 new. confirm_all os ks rm1 s1 = Inr (rm2, s2) \<and> sent s2 = sent s1 @ new \<and>
    (recipient_of os a, MakeAcceptConnCommand (os_time os) (seqn m)) \<notin> set new"
proof -
  note e = BroadcastToSecondaries_eq [OF assms(3,2), of os a s]
  have "out = datagrams os (srv_socket s)
      (map (\<lambda>(i, p). (GetSocketAddress p, m\<lparr>seqn := lastSeqn s + of_nat i\<rparr>)) (enumerate 0 (GetSecondaryReplicas rm)))"
    using e assms(8,9) by auto
  then have "(\<lambda>(_, p). seqn p) ` set out \<subseteq> {lastSeqn s, lastSeqn s + 1}"
    using assms(6) by (auto simp: datagrams_def in_set_enumerate_eq less_Suc_eq numeral_3_eq_3)
  moreover have "\<not> lastSeqn s + 2 < lastSeqn s" "lastSeqn s + 2 \<noteq> lastSeqn s" "lastSeqn s + 2 \<noteq> lastSeqn s + 1"
    using assms(7) by (simp_all add: word_less_nat_alt unat_word_ariths)
  ultimately have "lastSeqn s + 2 \<notin> set ks" using assms(10) by blast
  then show ?thesis
    using accept_replies [OF assms(1-5), of ks] assms(8) by auto
qed

theorem few_secondaries_no_accept_witness:
  "\<exists>rm1 s1 rm2 s2 new.
    BroadcastToSecondaries example_os example_connect example_client
      (example_primary\<lparr>peers := take 2 (peers example_primary)\<rparr>) example_core = Inr (rm1, s1) \<and>
    confirm_all example_os [8, 7, 8, 3] rm1 s1 = Inr (rm2, s2) \<and> sent s2 = sent s1 @ new \<and>
    (recipient_of example_os example_client, MakeAcceptConnCommand (os_time example_os) (seqn example_connect)) \<notin> set new"
proof -
  let ?rm = "example_primary\<lparr>peers := take 2 (peers example_primary)\<rparr>"
  have rm: "replica_inv ?rm" "confirmationBuffer ?rm = Some []" "GetSecondaryReplicas ?rm = take 2 (peers example_primary)"
    by (simp_all add: example_primary_def replica_inv_def IsPrimary_def GetSecondaryReplicas_def)
  note e = BroadcastToSecondaries_eq [OF example_connect_facts(1) rm(2), of example_os example_client example_core]
  obtain rm1 s1 where b: "BroadcastToSecondaries example_os example_connect example_client ?rm example_core = Inr (rm1, s1)"
    using e by blast
  let ?out = "datagrams example_os (srv_socket example_core) (map (\<lambda>(i, p).
    (GetSocketAddress p, example_connect\<lparr>seqn := lastSeqn example_core + of_nat i\<rparr>)) (enumerate 0 (GetSecondaryReplicas ?rm)))"
  have out: "sent s1 = sent example_core @ ?out" using b e by auto
  have "\<exists>rm2 s2 new. confirm_all example_os [8, 7, 8, 3] rm1 s1 = Inr (rm2, s2) \<and> sent s2 = sent s1 @ new \<and>
    (recipient_of example_os example_client, MakeAcceptConnCommand (os_time example_os) (seqn example_connect)) \<notin> set new"
    by (rule few_secondaries_no_accept [OF rm(1,2) example_connect_facts(1) _ _ _ _ b out])
      (simp_all add: rm(3), simp_all add: example_primary_def)
  with b show ?thesis by blast
qed

text \<open>
  A confirmation is counted once: while the counter does not wrap around, a broadcast keeps
  the numbers of all entries distinct and below the counter, so that \<open>Confirm\<close> marks at most one
  entry for any number.
\<close>

lemma Broadcast_numbers:
  assumes "confirmationBuffer rm = Some b" and "numbers_ok b (lastSeqn s)" and "unat (lastSeqn s) + 3 < 2 ^ 64"
    and "ptype m = PACKET_CONNECT_CMD" and "BroadcastToSecondaries os m a rm s = Inr (rm', s')"
  shows "\<exists>b'. confirmationBuffer rm' = Some b' \<and> numbers_ok b' (lastSeqn s') \<and> matches k b' \<le> 1"
proof -
  let ?n = "lastSeqn s"
  let ?b = "Push3 (map (\<lambda>n. BaseMessage2 n m) [?n, ?n + 1, ?n + 2]) (seqn m) a b"
  have r: "confirmationBuffer rm' = Some ?b" "lastSeqn s' = ?n + 3"
    using BroadcastToSecondaries_eq [OF assms(4,1), of os a s] assms(5) by auto
  have lt: "?n < ?n + 1" "?n + 1 < ?n + 2" "?n + 2 < ?n + 3"
    using assms(3) by (simp_all add: word_less_nat_alt unat_word_ariths)
  have "numbers_ok ?b (?n + 3)"
    using assms(2) lt by (fastforce simp: numbers_ok_def BaseMessage2_def)
  then show ?thesis using r matches_le_1 [of ?b k] unfolding numbers_ok_def by auto
qed

text \<open>
  C26.  The \<open>PEERS\<close> argument: parsing the entries \<open>ip:port:role\<close> joined by commas gives back
  every peer with its address, its port and its role, in order.
\<close>

theorem ParsePeersArgument_roundtrip:
  assumes "\<forall>p \<in> set ps. peer_ok p"
  shows "ParsePeersArgument (join_with CHR '','' (map peer_text ps)) = Inr ps"
  using assms by (rule ParsePeers_texts)

theorem ParsePeersArgument_roundtrip_witness:
  "ParsePeersArgument (join_with CHR '','' (map peer_text (peers example_primary))) = Inr (peers example_primary)"
  by (rule ParsePeersArgument_roundtrip) (simp add: example_primary_def peer_ok_def)

end
