(* ===== verification/Sessions.thy ===== *)
theory Sessions
  imports Wire
begin

text \<open>
  Sessions and their manager (\<open>source/server/Session.hpp\<close>, \<open>SessionManager.hpp\<close>,
  \<open>SessionManager.cpp\<close>).  A \<open>Session*\<close> is an address into the manager's heap of sessions,
  which only grows: sessions are freed by the destructor alone.  The table is the
  \<open>std::map\<close> of \<open>Cxx_Std\<close>.  The operations take the user's handle, which the source reads
  from the profile it is given.  The members of \<open>Session\<close> that no code reads are left out.
  The locale \<open>session_table\<close> is the contract the server relies on: which addresses a user is
  connected from, and the limit of two.
\<close>

section \<open>Data and operations\<close>

abbreviation (input) MAX_SESSIONS_PER_USER :: nat where "MAX_SESSIONS_PER_USER \<equiv> 2"

record Session =
  sessionId :: int
  userHandle :: string
  sockets :: "SocketAddress list"

record SessionManager =
  sessions :: "(string, nat) std_map"
  sessionHeap :: "Session list"

definition SessionManager_new :: SessionManager where
  "SessionManager_new = \<lparr>sessions = [], sessionHeap = []\<rparr>"

text \<open>\<open>None\<close> is the null pointer of a refused session.\<close>

definition StartSession ::
  "string \<Rightarrow> SocketAddress \<Rightarrow> SessionManager \<Rightarrow> nat option \<times> SessionManager" where
  "StartSession handle sender sm =
     (case map_find handle (sessions sm) of
        None \<Rightarrow>
          (let newSession = \<lparr>sessionId = 1, userHandle = handle, sockets = [sender]\<rparr>;
               a = length (sessionHeap sm)
           in (Some a, sm\<lparr>sessionHeap := sessionHeap sm @ [newSession],
                          sessions := map_insert handle a (sessions sm)\<rparr>))
      | Some a \<Rightarrow>
          (let s = sessionHeap sm ! a in
           if length (sockets s) \<ge> MAX_SESSIONS_PER_USER then (None, sm)
           else (Some a, sm\<lparr>sessionHeap :=
             (sessionHeap sm)[a := s\<lparr>sockets := sockets s @ [sender]\<rparr>]\<rparr>)))"

fun erase_first :: "('a \<Rightarrow> bool) \<Rightarrow> 'a list \<Rightarrow> 'a list" where
  "erase_first P [] = []"
| "erase_first P (x # xs) = (if P x then xs else x # erase_first P xs)"

definition same_address :: "SocketAddress \<Rightarrow> SocketAddress \<Rightarrow> bool" where
  "same_address a b \<longleftrightarrow> address a = address b \<and> port a = port b"

definition EndSession :: "string \<Rightarrow> SocketAddress \<Rightarrow> SessionManager \<Rightarrow> int \<times> SessionManager" where
  "EndSession handle sender sm =
     (case map_find handle (sessions sm) of
        None \<Rightarrow> (0, sm)
      | Some a \<Rightarrow>
          (let s = sessionHeap sm ! a in
           if list_ex (\<lambda>x. same_address x sender) (sockets s)
           then (1, sm\<lparr>sessionHeap := (sessionHeap sm)
                  [a := s\<lparr>sockets := erase_first (\<lambda>x. same_address x sender) (sockets s)\<rparr>]\<rparr>)
           else (0, sm)))"

text \<open>
  The loops of \<open>GetUserNameByAddressAndIP\<close>, over the sessions in key order; the result is the
  value written to the output parameter, \<open>None\<close> when the function returns 0.
\<close>

definition GetUserNameByAddressAndIP :: "SocketAddress \<Rightarrow> SessionManager \<Rightarrow> string option" where
  "GetUserNameByAddressAndIP a sm =
     map_option (\<lambda>(k, p). userHandle (sessionHeap sm ! p))
       (List.find (\<lambda>(k, p). list_ex (\<lambda>x. same_address x a) (sockets (sessionHeap sm ! p))) (sessions sm))"

definition GetUserAddresses :: "string \<Rightarrow> SessionManager \<Rightarrow> SocketAddress list" where
  "GetUserAddresses handle sm =
     (case map_find handle (sessions sm) of None \<Rightarrow> [] | Some a \<Rightarrow> sockets (sessionHeap sm ! a))"

section \<open>Invariant\<close>

definition session_inv :: "SessionManager \<Rightarrow> bool" where
  "session_inv sm \<longleftrightarrow>
     map_invar (sessions sm) \<and>
     (\<forall>k a. map_find k (sessions sm) = Some a \<longrightarrow>
        a < length (sessionHeap sm) \<and> userHandle (sessionHeap sm ! a) = k) \<and>
     (\<forall>a < length (sessionHeap sm). map_find (userHandle (sessionHeap sm ! a)) (sessions sm) = Some a) \<and>
     (\<forall>s \<in> set (sessionHeap sm). length (sockets s) \<le> MAX_SESSIONS_PER_USER)"

lemma same_address_eq: "same_address a b \<longleftrightarrow> a = b"
  by (cases a; cases b) (auto simp: same_address_def)

lemma same_address_fun: "(\<lambda>x. same_address x b) = (\<lambda>x. x = b)"
  by (auto simp: same_address_eq)

lemma erase_first_eq: "erase_first (\<lambda>x. x = a) xs = remove1 a xs"
  by (induction xs) auto

lemma session_invD:
  assumes "session_inv sm"
  shows "map_invar (sessions sm)"
    and "map_find k (sessions sm) = Some a \<Longrightarrow> a < length (sessionHeap sm)"
    and "map_find k (sessions sm) = Some a \<Longrightarrow> userHandle (sessionHeap sm ! a) = k"
    and "a < length (sessionHeap sm) \<Longrightarrow> map_find (userHandle (sessionHeap sm ! a)) (sessions sm) = Some a"
    and "a < length (sessionHeap sm) \<Longrightarrow> length (sockets (sessionHeap sm ! a)) \<le> MAX_SESSIONS_PER_USER"
  using assms unfolding session_inv_def by auto

lemma session_inv_new: "session_inv SessionManager_new"
  by (simp add: session_inv_def SessionManager_new_def std.invar_empty std.find_empty)

lemma update_userHandle:
  "userHandle s = userHandle (hp ! a) \<Longrightarrow> userHandle (hp[a := s] ! b) = userHandle (hp ! b)"
  by (cases "b = a"; cases "a < length hp") (auto simp: list_update_beyond)

text \<open>Changing the sockets of one session, within the limit.\<close>

lemma session_inv_update:
  assumes inv: "session_inv sm" and s: "userHandle s = userHandle (sessionHeap sm ! a)"
    and l: "length (sockets s) \<le> MAX_SESSIONS_PER_USER"
  shows "session_inv (sm\<lparr>sessionHeap := (sessionHeap sm)[a := s]\<rparr>)"
proof -
  have u: "userHandle ((sessionHeap sm)[a := s] ! b) = userHandle (sessionHeap sm ! b)" for b
    using s by (rule update_userHandle)
  have "length (sockets x) \<le> MAX_SESSIONS_PER_USER" if "x \<in> set ((sessionHeap sm)[a := s])" for x
    using that l inv set_update_subset_insert [of "sessionHeap sm" a s]
    by (auto simp: session_inv_def)
  with inv show ?thesis by (auto simp: session_inv_def u)
qed

lemma session_inv_fresh:
  assumes inv: "session_inv sm" and f: "map_find h (sessions sm) = None"
    and s: "userHandle s = h" "length (sockets s) \<le> MAX_SESSIONS_PER_USER"
  shows "session_inv (sm\<lparr>sessionHeap := sessionHeap sm @ [s],
    sessions := map_insert h (length (sessionHeap sm)) (sessions sm)\<rparr>)"
proof -
  note D = session_invD [OF inv]
  have find: "map_find k (map_insert h (length (sessionHeap sm)) (sessions sm)) =
      (if k = h then Some (length (sessionHeap sm)) else map_find k (sessions sm))" for k
    using f D(1) by (simp add: std.find_insert)
  have "userHandle (sessionHeap sm ! a) \<noteq> h" if "a < length (sessionHeap sm)" for a
    using D(4) [OF that] f by auto
  then show ?thesis
    unfolding session_inv_def using inv s D(1-4)
    by (auto simp: find nth_append std.invar_insert session_inv_def less_Suc_eq split: if_splits)
qed

lemma StartSession_inv [inv_rules]: "session_inv sm \<Longrightarrow> session_inv (snd (StartSession h a sm))"
  by (auto simp: StartSession_def Let_def split: option.split
      intro!: session_inv_fresh session_inv_update)

lemma EndSession_inv [inv_rules]:
  assumes "session_inv sm"
  shows "session_inv (snd (EndSession h a sm))"
proof -
  have "length (remove1 a xs) \<le> length xs" for xs :: "SocketAddress list" by (simp add: length_remove1)
  then have "length (sockets (sessionHeap sm ! p)) \<le> 2 \<Longrightarrow>
      length (remove1 a (sockets (sessionHeap sm ! p))) \<le> 2" for p by (meson le_trans)
  with assms show ?thesis
    by (auto simp: EndSession_def Let_def same_address_fun erase_first_eq session_invD(2,5)
        split: option.split intro!: session_inv_update)
qed

section \<open>The contract of the session table\<close>

locale session_table =
  fixes start :: "'h \<Rightarrow> 'a \<Rightarrow> 's \<Rightarrow> 'p option \<times> 's"
    and finish :: "'h \<Rightarrow> 'a \<Rightarrow> 's \<Rightarrow> int \<times> 's"
    and addrs :: "'h \<Rightarrow> 's \<Rightarrow> 'a list"
    and invar :: "'s \<Rightarrow> bool"
    and limit :: nat
  assumes start_refused: "invar s \<Longrightarrow> limit \<le> length (addrs h s) \<Longrightarrow> start h a s = (None, s)"
    and start_granted: "invar s \<Longrightarrow> length (addrs h s) < limit \<Longrightarrow>
      fst (start h a s) \<noteq> None \<and>
      addrs h' (snd (start h a s)) = (if h' = h then addrs h s @ [a] else addrs h' s)"
    and finish_addrs: "invar s \<Longrightarrow>
      addrs h' (snd (finish h a s)) = (if h' = h then remove1 a (addrs h s) else addrs h' s)"
    and finish_result: "invar s \<Longrightarrow> fst (finish h a s) = (if a \<in> set (addrs h s) then 1 else 0)"
    and start_invar: "invar s \<Longrightarrow> invar (snd (start h a s))"
    and finish_invar: "invar s \<Longrightarrow> invar (snd (finish h a s))"
    and limit_pos: "0 < limit"
begin

lemma start_bounded:
  assumes "invar s" and "\<And>h. length (addrs h s) \<le> limit"
  shows "length (addrs h' (snd (start h a s))) \<le> limit"
proof (cases "length (addrs h s) < limit")
  case True
  then show ?thesis using assms start_granted [OF assms(1) True, of a h'] by auto
next
  case False
  then show ?thesis using assms start_refused [OF assms(1), of h a] by auto
qed

text \<open>Leaving from the address one just joined from restores the addresses of every user.\<close>

lemma finish_start:
  assumes "invar s" and "length (addrs h s) < limit" and "a \<notin> set (addrs h s)"
  shows "addrs h' (snd (finish h a (snd (start h a s)))) = addrs h' s"
proof -
  have "invar (snd (start h a s))" using assms(1) by (rule start_invar)
  then show ?thesis
    using start_granted [OF assms(1,2), of a] assms(3)
    by (simp add: finish_addrs remove1_append remove1_idem)
qed

text \<open>After leaving a full table there is room again.\<close>

lemma start_after_finish:
  assumes "invar s" and "a \<in> set (addrs h s)" and "length (addrs h s) \<le> limit"
  shows "fst (start h b (snd (finish h a s))) \<noteq> None"
proof -
  have "0 < length (addrs h s)" using assms(2) by (rule length_pos_if_in_set)
  then have "length (addrs h s) - 1 < limit" using assms(3) by linarith
  then have "length (addrs h (snd (finish h a s))) < limit"
    using assms(2) by (simp add: finish_addrs [OF assms(1)] length_remove1)
  then show ?thesis using start_granted [OF finish_invar [OF assms(1)]] by blast
qed

end

lemma GetUserAddresses_bound: "session_inv sm \<Longrightarrow> length (GetUserAddresses h sm) \<le> MAX_SESSIONS_PER_USER"
  by (auto simp: GetUserAddresses_def session_invD(2,5) split: option.split)

lemma StartSession_spec:
  assumes inv: "session_inv sm"
  shows "MAX_SESSIONS_PER_USER \<le> length (GetUserAddresses h sm) \<Longrightarrow> StartSession h a sm = (None, sm)"
    and "length (GetUserAddresses h sm) < MAX_SESSIONS_PER_USER \<Longrightarrow>
      fst (StartSession h a sm) \<noteq> None \<and> GetUserAddresses h' (snd (StartSession h a sm)) =
        (if h' = h then GetUserAddresses h sm @ [a] else GetUserAddresses h' sm)"
proof -
  note D = session_invD [OF inv]
  show "MAX_SESSIONS_PER_USER \<le> length (GetUserAddresses h sm) \<Longrightarrow> StartSession h a sm = (None, sm)"
    by (auto simp: GetUserAddresses_def StartSession_def split: option.splits)
  assume lt: "length (GetUserAddresses h sm) < MAX_SESSIONS_PER_USER"
  show "fst (StartSession h a sm) \<noteq> None \<and> GetUserAddresses h' (snd (StartSession h a sm)) =
      (if h' = h then GetUserAddresses h sm @ [a] else GetUserAddresses h' sm)"
  proof (cases "map_find h (sessions sm)")
    case None
    then show ?thesis
      using D(1,2) by (auto simp: StartSession_def GetUserAddresses_def Let_def std.find_insert nth_append
          split: option.split)
  next
    case (Some p)
    have "p \<noteq> q" if "map_find h' (sessions sm) = Some q" "h' \<noteq> h" for q
      using that Some D(3) by metis
    with Some lt D(2) show ?thesis
      by (auto simp: StartSession_def GetUserAddresses_def Let_def split: option.splits)
  qed
qed

lemma EndSession_spec:
  assumes inv: "session_inv sm"
  shows "GetUserAddresses h' (snd (EndSession h a sm)) =
      (if h' = h then remove1 a (GetUserAddresses h sm) else GetUserAddresses h' sm)"
    and "fst (EndSession h a sm) = (if a \<in> set (GetUserAddresses h sm) then 1 else 0)"
proof -
  note D = session_invD [OF inv]
  have "p \<noteq> q" if "map_find h' (sessions sm) = Some q" "map_find h (sessions sm) = Some p" "h' \<noteq> h"
    for p q using that D(3) by metis
  then show "GetUserAddresses h' (snd (EndSession h a sm)) =
      (if h' = h then remove1 a (GetUserAddresses h sm) else GetUserAddresses h' sm)"
    using D(2) by (auto simp: EndSession_def GetUserAddresses_def Let_def same_address_fun erase_first_eq
        list_ex_iff remove1_idem split: option.splits)
  show "fst (EndSession h a sm) = (if a \<in> set (GetUserAddresses h sm) then 1 else 0)"
    by (auto simp: EndSession_def GetUserAddresses_def Let_def same_address_fun list_ex_iff
        split: option.splits)
qed

interpretation sm: session_table StartSession EndSession GetUserAddresses session_inv MAX_SESSIONS_PER_USER
  by unfold_locales (auto simp: StartSession_spec EndSession_spec intro: StartSession_inv EndSession_inv)

text \<open>The address that \<open>StartSession\<close> returns is the one the table holds for the user.\<close>

lemma StartSession_ptr:
  assumes "session_inv sm" and "StartSession h a sm = (Some p, sm')"
  shows "map_find h (sessions sm') = Some p" "p < length (sessionHeap sm')"
    "length (sessionHeap sm) \<le> length (sessionHeap sm')"
    "\<And>q. q < length (sessionHeap sm) \<Longrightarrow> userHandle (sessionHeap sm' ! q) = userHandle (sessionHeap sm ! q)"
    "sockets (sessionHeap sm' ! p) \<noteq> []"
  using assms session_invD(1,2) [OF assms(1)]
  by (auto simp: StartSession_def Let_def std.find_insert nth_append nth_list_update
      split: option.splits if_splits)

lemma StartSession_heap:
  assumes "session_inv sm"
  shows "length (sessionHeap sm) \<le> length (sessionHeap (snd (StartSession h a sm)))"
    and "q < length (sessionHeap sm) \<Longrightarrow>
      userHandle (sessionHeap (snd (StartSession h a sm)) ! q) = userHandle (sessionHeap sm ! q)"
  using session_invD(2) [OF assms]
  by (auto simp: StartSession_def Let_def nth_append nth_list_update split: option.splits)

lemma EndSession_heap [simp]:
  "length (sessionHeap (snd (EndSession h a sm))) = length (sessionHeap sm)"
  "q < length (sessionHeap sm) \<Longrightarrow>
    userHandle (sessionHeap (snd (EndSession h a sm)) ! q) = userHandle (sessionHeap sm ! q)"
  by (auto simp: EndSession_def Let_def update_userHandle split: option.splits)

section \<open>Properties\<close>

text \<open>
  C17.  \<open>StartSession\<close> implements the contract of the table: a user with two addresses is refused
  and nothing changes; otherwise a session is returned, the sender becomes the last of the user's
  addresses and the addresses of every other user stay as they are.
\<close>

theorem StartSession_refines:
  assumes "session_inv sm"
  shows "if length (GetUserAddresses h sm) < MAX_SESSIONS_PER_USER
    then \<exists>p sm'. StartSession h a sm = (Some p, sm') \<and> session_inv sm' \<and>
      GetUserAddresses h sm' = GetUserAddresses h sm @ [a] \<and>
      (\<forall>h'. h' \<noteq> h \<longrightarrow> GetUserAddresses h' sm' = GetUserAddresses h' sm)
    else StartSession h a sm = (None, sm)"
proof (cases "length (GetUserAddresses h sm) < MAX_SESSIONS_PER_USER")
  case True
  from sm.start_granted [OF assms True, of a] obtain p where "fst (StartSession h a sm) = Some p" by auto
  then have "StartSession h a sm = (Some p, snd (StartSession h a sm))" by (metis prod.collapse)
  with True show ?thesis
    using sm.start_granted [OF assms True, of a] sm.start_invar [OF assms] by (metis (full_types))
next
  case False
  then show ?thesis using sm.start_refused [OF assms] by auto
qed

theorem StartSession_refines_witness:
  "if length (GetUserAddresses ''ana'' SessionManager_new) < MAX_SESSIONS_PER_USER
    then \<exists>p sm'. StartSession ''ana'' \<lparr>address = ''10.0.0.1'', port = 4000\<rparr> SessionManager_new = (Some p, sm')
      \<and> session_inv sm' \<and>
      GetUserAddresses ''ana'' sm' = GetUserAddresses ''ana'' SessionManager_new @ [\<lparr>address = ''10.0.0.1'', port = 4000\<rparr>] \<and>
      (\<forall>h'. h' \<noteq> ''ana'' \<longrightarrow> GetUserAddresses h' sm' = GetUserAddresses h' SessionManager_new)
    else StartSession ''ana'' \<lparr>address = ''10.0.0.1'', port = 4000\<rparr> SessionManager_new = (None, SessionManager_new)"
  by (rule StartSession_refines) (rule session_inv_new)

text \<open>
  C18.  \<open>EndSession\<close> takes the sender off the user's addresses, once, and reports whether it was
  there; other users are not touched, and a user who was at the limit can connect again.
\<close>

theorem EndSession_refines:
  assumes "session_inv sm" and "EndSession h a sm = (r, sm')"
  shows "session_inv sm' \<and> GetUserAddresses h sm' = remove1 a (GetUserAddresses h sm) \<and>
    (\<forall>h'. h' \<noteq> h \<longrightarrow> GetUserAddresses h' sm' = GetUserAddresses h' sm) \<and>
    r = (if a \<in> set (GetUserAddresses h sm) then 1 else 0) \<and>
    (a \<in> set (GetUserAddresses h sm) \<longrightarrow> fst (StartSession h b sm') \<noteq> None)"
proof -
  have [simp]: "sm' = snd (EndSession h a sm)" "r = fst (EndSession h a sm)" using assms(2) by auto
  show ?thesis
    using sm.finish_invar [OF assms(1)] sm.finish_addrs [OF assms(1)] sm.finish_result [OF assms(1)]
      sm.start_after_finish [OF assms(1)] GetUserAddresses_bound [OF assms(1)]
    by simp
qed

theorem EndSession_refines_witness:
  "let a = \<lparr>address = ''10.0.0.1'', port = 4000\<rparr>; sm = snd (StartSession ''ana'' a SessionManager_new);
       sm' = snd (EndSession ''ana'' a sm)
   in GetUserAddresses ''ana'' sm' = remove1 a (GetUserAddresses ''ana'' sm) \<and>
      fst (EndSession ''ana'' a sm) = 1"
  using EndSession_refines [OF StartSession_inv [OF session_inv_new] prod.collapse [symmetric],
      of "''ana''" "\<lparr>address = ''10.0.0.1'', port = 4000\<rparr>" "''ana''" "\<lparr>address = ''10.0.0.1'', port = 4000\<rparr>"]
  by (simp add: Let_def StartSession_def SessionManager_new_def map_find_def GetUserAddresses_def)

text \<open>
  C19.  Authentication by address: \<open>GetUserNameByAddressAndIP\<close> finds a user exactly when some user
  is connected from the address, and it is then the first such user in the order of the handles.
\<close>

theorem GetUserName_correct:
  assumes "session_inv sm"
  shows "GetUserNameByAddressAndIP a sm = Some u \<longleftrightarrow>
    a \<in> set (GetUserAddresses u sm) \<and> (\<forall>v. a \<in> set (GetUserAddresses v sm) \<longrightarrow> u \<le> v)"
proof -
  note D = session_invD [OF assms]
  let ?P = "\<lambda>(k, p). list_ex (\<lambda>x. same_address x a) (sockets (sessionHeap sm ! p))"
  have entry: "(k, p) \<in> set (sessions sm) \<longleftrightarrow> map_find k (sessions sm) = Some p" for k p
    using std.entries_find [OF D(1)] by auto
  have P: "?P (k, p) \<longleftrightarrow> a \<in> set (GetUserAddresses k sm)" if "(k, p) \<in> set (sessions sm)" for k p
    using that entry by (auto simp: GetUserAddresses_def same_address_fun list_ex_iff)
  have has: "\<exists>p. (k, p) \<in> set (sessions sm)" if "a \<in> set (GetUserAddresses k sm)" for k
    using that entry by (cases "map_find k (sessions sm)") (auto simp: GetUserAddresses_def)
  have sorted: "sorted (map fst (sessions sm))" using std.entries_sorted [OF D(1)] by simp
  show ?thesis
  proof (cases "List.find ?P (sessions sm)")
    case None
    then have "a \<notin> set (GetUserAddresses k sm)" for k
      using has [of k] P [of k] by (fastforce simp: find_None_iff)
    with None show ?thesis by (simp add: GetUserNameByAddressAndIP_def)
  next
    case (Some e)
    obtain k p where e: "e = (k, p)" by fastforce
    from Some obtain i where i: "i < length (sessions sm)" "sessions sm ! i = (k, p)" "?P (k, p)"
      "\<forall>j < i. \<not> ?P (sessions sm ! j)" using e by (auto simp: find_Some_iff)
    have mem: "(k, p) \<in> set (sessions sm)" using i by (metis nth_mem)
    have least: "k \<le> v" if "a \<in> set (GetUserAddresses v sm)" for v
    proof -
      from has [OF that] obtain q where q: "(v, q) \<in> set (sessions sm)" by blast
      then obtain j where j: "j < length (sessions sm)" "sessions sm ! j = (v, q)"
        by (auto simp: in_set_conv_nth)
      then have Pj: "?P (sessions sm ! j)" using that P [OF q] by simp
      have "\<not> j < i"
      proof
        assume "j < i"
        from i(4) [rule_format, OF this] Pj show False by contradiction
      qed
      then have "i \<le> j" by simp
      then have "map fst (sessions sm) ! i \<le> map fst (sessions sm) ! j"
        using sorted j(1) by (intro sorted_nth_mono) auto
      then show ?thesis using i(1,2) j by simp
    qed
    have "userHandle (sessionHeap sm ! p) = k" using mem entry D(3) by blast
    then have "GetUserNameByAddressAndIP a sm = Some k"
      using Some e by (simp add: GetUserNameByAddressAndIP_def)
    moreover have "a \<in> set (GetUserAddresses k sm)" using P [OF mem] i(3) by simp
    ultimately show ?thesis using least by (auto intro: order.antisym)
  qed
qed

theorem GetUserName_correct_witness:
  "GetUserNameByAddressAndIP \<lparr>address = ''10.0.0.1'', port = 4000\<rparr>
      (snd (StartSession ''ana'' \<lparr>address = ''10.0.0.1'', port = 4000\<rparr> SessionManager_new)) = Some ''ana''
    \<longleftrightarrow> \<lparr>address = ''10.0.0.1'', port = 4000\<rparr> \<in> set (GetUserAddresses ''ana''
      (snd (StartSession ''ana'' \<lparr>address = ''10.0.0.1'', port = 4000\<rparr> SessionManager_new)))
    \<and> (\<forall>v. \<lparr>address = ''10.0.0.1'', port = 4000\<rparr> \<in> set (GetUserAddresses v
      (snd (StartSession ''ana'' \<lparr>address = ''10.0.0.1'', port = 4000\<rparr> SessionManager_new))) \<longrightarrow> ''ana'' \<le> v)"
  by (rule GetUserName_correct) (rule StartSession_inv, rule session_inv_new)

end
