(* ===== verification/Profiles.thy ===== *)
theory Profiles
  imports Sessions
begin

text \<open>
  Profiles and their manager in memory (\<open>source/server/Profile.hpp\<close>, \<open>Profile.cpp\<close>,
  \<open>ProfileManager.hpp\<close>, \<open>ProfileManager.cpp\<close>).  A \<open>Profile*\<close> is an address into the heap of
  profiles, which only grows; the members that hold pointers hold addresses.  The two-argument
  constructor does not initialise the session pointer, so a session pointer is indeterminate,
  null or an address of the session heap, and reading an indeterminate one is a failure.  The
  manager's state includes the file \<open>profiles.dat\<close> that \<open>Sync\<close> rewrites (\<open>None\<close> when there
  is none) and whether it can be opened for writing.  The locale \<open>directory\<close> is the contract of
  lookup and creation by name.
\<close>

section \<open>Data\<close>

datatype session_ref = Indeterminate | NullSession | SessionAt nat

record Profile =
  handle :: string
  followers :: "nat list"
  session :: session_ref

record ProfileManager =
  profiles :: "nat list"
  profileHeap :: "Profile list"
  profilesFile :: "string option"
  writable :: bool

definition Profile3 :: "string \<Rightarrow> session_ref \<Rightarrow> Profile" where
  "Profile3 h s = \<lparr>handle = h, followers = [], session = s\<rparr>"

definition Profile2 :: "string \<Rightarrow> Profile" where
  "Profile2 h = \<lparr>handle = h, followers = [], session = Indeterminate\<rparr>"

definition GetHandle :: "nat \<Rightarrow> ProfileManager \<Rightarrow> string" where
  "GetHandle p pm = handle (profileHeap pm ! p)"

definition GetFollowers :: "nat \<Rightarrow> ProfileManager \<Rightarrow> nat list" where
  "GetFollowers p pm = followers (profileHeap pm ! p)"

definition GetSession :: "nat \<Rightarrow> ProfileManager \<Rightarrow> session_ref" where
  "GetSession p pm = session (profileHeap pm ! p)"

definition SetSession :: "nat \<Rightarrow> session_ref \<Rightarrow> ProfileManager \<Rightarrow> ProfileManager" where
  "SetSession p s pm = pm\<lparr>profileHeap := (profileHeap pm)[p := (profileHeap pm ! p)\<lparr>session := s\<rparr>]\<rparr>"

section \<open>Operations of the manager\<close>

text \<open>The text that \<open>Sync\<close> writes: the number of profiles, their handles, the follower lines.\<close>

definition follower_lines :: "ProfileManager \<Rightarrow> string list" where
  "follower_lines pm =
     concat (map (\<lambda>p. map (\<lambda>f. GetHandle p pm @ '','' @ GetHandle f pm) (GetFollowers p pm)) (profiles pm))"

definition profiles_text :: "ProfileManager \<Rightarrow> string" where
  "profiles_text pm =
     show_nat (length (profiles pm)) @ [CHR 0x0A] @
     concat (map (\<lambda>p. GetHandle p pm @ [CHR 0x0A]) (profiles pm)) @
     concat (map (\<lambda>l. l @ [CHR 0x0A]) (follower_lines pm))"

definition Sync :: "ProfileManager \<Rightarrow> ProfileManager" where
  "Sync pm = (if writable pm then pm\<lparr>profilesFile := Some (profiles_text pm)\<rparr> else pm)"

definition GetProfileByName :: "string \<Rightarrow> ProfileManager \<Rightarrow> nat option" where
  "GetProfileByName h pm = List.find (\<lambda>p. GetHandle p pm = h) (profiles pm)"

definition push_profile :: "Profile \<Rightarrow> ProfileManager \<Rightarrow> nat \<times> ProfileManager" where
  "push_profile p pm =
     (let a = length (profileHeap pm)
      in (a, pm\<lparr>profileHeap := profileHeap pm @ [p], profiles := profiles pm @ [a]\<rparr>))"

definition NewProfile2 :: "string \<Rightarrow> session_ref \<Rightarrow> ProfileManager \<Rightarrow> nat \<times> ProfileManager" where
  "NewProfile2 h s pm = (let (a, pm') = push_profile (Profile3 h s) pm in (a, Sync pm'))"

definition NewProfile :: "string \<Rightarrow> ProfileManager \<Rightarrow> nat \<times> ProfileManager" where
  "NewProfile h pm = (let (a, pm') = push_profile (Profile2 h) pm in (a, Sync pm'))"

text \<open>
  \<open>AddFollower\<close> on the profile at \<open>this\<close>; the result is \<open>None\<close> when the named user does not
  exist, where the source runs off the end of the function.
\<close>

definition AddFollower :: "nat \<Rightarrow> string \<Rightarrow> bool \<Rightarrow> ProfileManager \<Rightarrow> int option \<times> ProfileManager" where
  "AddFollower this user saveDisk pm =
     (case GetProfileByName user pm of
        Some pProfile \<Rightarrow>
          (if pProfile \<notin> set (GetFollowers this pm) then
             (let pr = profileHeap pm ! this;
                  pm' = pm\<lparr>profileHeap := (profileHeap pm)
                           [this := pr\<lparr>followers := followers pr @ [pProfile]\<rparr>]\<rparr>
              in (Some 1, if saveDisk then Sync pm' else pm'))
           else (Some 0, pm))
      | None \<Rightarrow> (None, pm))"

text \<open>The test \<open>session && session->sockets.size() > 0\<close>, with the sockets when it holds.\<close>

definition live_sockets :: "session_ref \<Rightarrow> SessionManager \<Rightarrow> SocketAddress list res" where
  "live_sockets r sm =
     (case r of
        Indeterminate \<Rightarrow> Inl UninitialisedRead
      | NullSession \<Rightarrow> Inr []
      | SessionAt a \<Rightarrow> Inr (sockets (sessionHeap sm ! a)))"

definition GetConnectedUsers ::
  "nat option \<Rightarrow> ProfileManager \<Rightarrow> SessionManager \<Rightarrow> string list res" where
  "GetConnectedUsers exclude pm sm =
     res_fold (\<lambda>user temp.
       if exclude \<noteq> None \<and> Some user \<noteq> exclude then
         res_bind (live_sockets (GetSession user pm) sm)
           (\<lambda>ss. if ss \<noteq> [] then Inr (temp @ [GetHandle user pm]) else Inr temp)
       else Inr temp) (profiles pm) []"

definition GetConnectedSockets ::
  "nat option \<Rightarrow> ProfileManager \<Rightarrow> SessionManager \<Rightarrow> SocketAddress list res" where
  "GetConnectedSockets exclude pm sm =
     res_fold (\<lambda>user temp.
       if exclude \<noteq> None \<and> Some user \<noteq> exclude then
         res_bind (live_sockets (GetSession user pm) sm) (\<lambda>ss. Inr (temp @ ss))
       else Inr temp) (profiles pm) []"

section \<open>Invariant\<close>

definition profile_ok :: "nat \<Rightarrow> Profile \<Rightarrow> bool" where
  "profile_ok n p \<longleftrightarrow> set (followers p) \<subseteq> {..<n} \<and> distinct (followers p)"

definition profile_inv :: "ProfileManager \<Rightarrow> bool" where
  "profile_inv pm \<longleftrightarrow>
     profiles pm = [0..<length (profileHeap pm)] \<and>
     (\<forall>p \<in> set (profileHeap pm). profile_ok (length (profileHeap pm)) p)"

definition handles_unique :: "ProfileManager \<Rightarrow> bool" where
  "handles_unique pm \<longleftrightarrow> distinct (map handle (profileHeap pm))"

lemma profile_inv_iff:
  "profile_inv pm \<longleftrightarrow> profiles pm = [0..<length (profileHeap pm)] \<and>
    (\<forall>p < length (profileHeap pm). profile_ok (length (profileHeap pm)) (profileHeap pm ! p))"
  by (auto simp: profile_inv_def all_set_conv_all_nth)

lemma profile_ok_mono: "profile_ok n p \<Longrightarrow> n \<le> m \<Longrightarrow> profile_ok m p"
  by (auto simp: profile_ok_def)

lemma Sync_simps [simp]:
  "profiles (Sync pm) = profiles pm" "profileHeap (Sync pm) = profileHeap pm"
  "writable (Sync pm) = writable pm" "GetHandle p (Sync pm) = GetHandle p pm"
  "GetFollowers p (Sync pm) = GetFollowers p pm" "GetSession p (Sync pm) = GetSession p pm"
  "profile_inv (Sync pm) = profile_inv pm" "handles_unique (Sync pm) = handles_unique pm"
  by (auto simp: Sync_def GetHandle_def GetFollowers_def GetSession_def profile_inv_def handles_unique_def)

lemma SetSession_heap:
  "p < length (profileHeap pm) \<Longrightarrow> GetSession q (SetSession p s pm) = (if q = p then s else GetSession q pm)"
  "GetHandle q (SetSession p s pm) = GetHandle q pm"
  "GetFollowers q (SetSession p s pm) = GetFollowers q pm"
  "length (profileHeap (SetSession p s pm)) = length (profileHeap pm)"
  "profiles (SetSession p s pm) = profiles pm"
  by (auto simp: SetSession_def GetSession_def GetHandle_def GetFollowers_def nth_list_update list_update_beyond
      intro: nth_list_update_neq; cases "q = p"; cases "p < length (profileHeap pm)";
      auto simp: list_update_beyond)+

lemma SetSession_inv [inv_rules]: "profile_inv pm \<Longrightarrow> profile_inv (SetSession p s pm)"
  by (cases "p < length (profileHeap pm)")
    (auto simp: profile_inv_iff SetSession_def nth_list_update profile_ok_def list_update_beyond)

lemma SetSession_unique [simp]: "handles_unique (SetSession p s pm) = handles_unique pm"
proof -
  have "map handle ((profileHeap pm)[p := (profileHeap pm ! p)\<lparr>session := s\<rparr>]) = map handle (profileHeap pm)"
    by (cases "p < length (profileHeap pm)")
      (auto simp: list_update_beyond map_update intro!: nth_equalityI simp: nth_list_update)
  then show ?thesis by (simp add: handles_unique_def SetSession_def)
qed

lemma push_profile_inv:
  assumes "profile_inv pm" and "followers p = []"
  shows "profile_inv (snd (push_profile p pm))"
  using assms by (auto simp: profile_inv_def push_profile_def Let_def profile_ok_def intro: less_SucI)

lemma NewProfile_inv [inv_rules]: "profile_inv pm \<Longrightarrow> profile_inv (snd (NewProfile h pm))"
  using push_profile_inv [of pm "Profile2 h"]
  by (auto simp: NewProfile_def Profile2_def Let_def split: prod.splits)

lemma GetProfileByName_Some:
  "profile_inv pm \<Longrightarrow> GetProfileByName h pm = Some p \<Longrightarrow> p < length (profileHeap pm) \<and> GetHandle p pm = h"
  by (auto simp: GetProfileByName_def profile_inv_def find_Some_iff)

lemma GetProfileByName_None:
  "profile_inv pm \<Longrightarrow> GetProfileByName h pm = None \<longleftrightarrow> (\<forall>p < length (profileHeap pm). GetHandle p pm \<noteq> h)"
  by (auto simp: GetProfileByName_def profile_inv_def find_None_iff)

lemma AddFollower_heap:
  assumes "profile_inv pm"
  shows "length (profileHeap (snd (AddFollower t u d pm))) = length (profileHeap pm)"
    "profiles (snd (AddFollower t u d pm)) = profiles pm"
    "GetHandle q (snd (AddFollower t u d pm)) = GetHandle q pm"
    "GetSession q (snd (AddFollower t u d pm)) = GetSession q pm"
  by (auto simp: AddFollower_def Let_def GetHandle_def GetSession_def split: option.split;
      cases "q = t"; cases "t < length (profileHeap pm)"; auto simp: list_update_beyond)+

lemma AddFollower_followers:
  assumes "t < length (profileHeap pm)"
  shows "GetFollowers q (snd (AddFollower t u d pm)) =
    (case GetProfileByName u pm of
       Some f \<Rightarrow> if q = t \<and> f \<notin> set (GetFollowers t pm) then GetFollowers t pm @ [f] else GetFollowers q pm
     | None \<Rightarrow> GetFollowers q pm)"
  using assms by (auto simp: AddFollower_def Let_def GetFollowers_def nth_list_update split: option.split)

lemma AddFollower_inv [inv_rules]:
  assumes inv: "profile_inv pm"
  shows "profile_inv (snd (AddFollower t u d pm))"
proof (cases "t < length (profileHeap pm)")
  case True
  have f: "f < length (profileHeap pm)" if "GetProfileByName u pm = Some f" for f
    using GetProfileByName_Some [OF inv that] by simp
  have "profile_ok (length (profileHeap pm)) (profileHeap (snd (AddFollower t u d pm)) ! q)"
    if q: "q < length (profileHeap pm)" for q
    using inv q f AddFollower_followers [OF True, of q u d]
    by (auto simp: profile_inv_iff profile_ok_def GetFollowers_def split: option.splits if_splits)
  with inv show ?thesis by (simp add: profile_inv_iff AddFollower_heap)
next
  case False
  with inv show ?thesis
    by (auto simp: AddFollower_def Let_def list_update_beyond profile_inv_def split: option.split)
qed

lemma AddFollower_unique:
  assumes "profile_inv pm"
  shows "handles_unique (snd (AddFollower t u d pm)) = handles_unique pm"
proof -
  have "map handle (profileHeap (snd (AddFollower t u d pm))) = map handle (profileHeap pm)"
    using AddFollower_heap [OF assms] by (intro nth_equalityI) (auto simp: GetHandle_def)
  then show ?thesis by (simp add: handles_unique_def)
qed

section \<open>The contract of the directory\<close>

locale directory =
  fixes lookup :: "'h \<Rightarrow> 's \<Rightarrow> 'p option"
    and create :: "'h \<Rightarrow> 's \<Rightarrow> 'p \<times> 's"
    and name :: "'p \<Rightarrow> 's \<Rightarrow> 'h"
    and members :: "'s \<Rightarrow> 'p list"
    and invar :: "'s \<Rightarrow> bool"
  assumes lookup_Some: "invar s \<Longrightarrow> lookup h s = Some p \<Longrightarrow> p \<in> set (members s) \<and> name p s = h"
    and lookup_None: "invar s \<Longrightarrow> lookup h s = None \<longleftrightarrow> (\<forall>p \<in> set (members s). name p s \<noteq> h)"
    and create_members: "invar s \<Longrightarrow> create h s = (p, s') \<Longrightarrow>
      invar s' \<and> p \<notin> set (members s) \<and> members s' = members s @ [p] \<and> name p s' = h \<and>
      (\<forall>q \<in> set (members s). name q s' = name q s)"
begin

lemma lookup_created:
  assumes "invar s" and "lookup h s = None" and "create h s = (p, s')"
  shows "lookup h s' = Some p"
proof -
  note c = create_members [OF assms(1,3)]
  have n: "\<forall>q \<in> set (members s). name q s \<noteq> h" using lookup_None assms(1,2) by blast
  have "lookup h s' \<noteq> None" using c lookup_None [of s' h] by auto
  then obtain q where q: "lookup h s' = Some q" by blast
  with c lookup_Some [of s' h q] have "q \<in> set (members s @ [p])" "name q s' = h" by auto
  with n c have "q = p" by auto
  with q show ?thesis by simp
qed

lemma create_unique:
  assumes "invar s" and "lookup h s = None" and "create h s = (p, s')"
    and "distinct (map (\<lambda>q. name q s) (members s))"
  shows "distinct (map (\<lambda>q. name q s') (members s'))"
proof -
  note c = create_members [OF assms(1,3)]
  have "\<forall>q \<in> set (members s). name q s \<noteq> h" using lookup_None assms(1,2) by blast
  moreover have "map (\<lambda>q. name q s') (members s) = map (\<lambda>q. name q s) (members s)" using c by auto
  ultimately show ?thesis using c assms(4) by (auto simp del: map_eq_conv)
qed

lemma lookup_unique:
  assumes "invar s" and "distinct (map (\<lambda>q. name q s) (members s))" and "p \<in> set (members s)"
  shows "lookup (name p s) s = Some p"
proof -
  have "lookup (name p s) s \<noteq> None" using lookup_None [OF assms(1)] assms(3) by blast
  then obtain q where q: "lookup (name p s) s = Some q" by blast
  with lookup_Some [OF assms(1)] have "q \<in> set (members s)" "name q s = name p s" by auto
  with assms(2,3) have "q = p" by (auto simp: distinct_map inj_on_def)
  with q show ?thesis by simp
qed

end

interpretation dir: directory GetProfileByName NewProfile GetHandle profiles profile_inv
proof
  fix s s' :: ProfileManager and h and p :: nat
  assume inv: "profile_inv s"
  show "GetProfileByName h s = Some p \<Longrightarrow> p \<in> set (profiles s) \<and> GetHandle p s = h"
    using GetProfileByName_Some [OF inv] inv by (auto simp: profile_inv_def)
  show "GetProfileByName h s = None \<longleftrightarrow> (\<forall>p \<in> set (profiles s). GetHandle p s \<noteq> h)"
    using GetProfileByName_None [OF inv] inv by (auto simp: profile_inv_def)
  show "NewProfile h s = (p, s') \<Longrightarrow> profile_inv s' \<and> p \<notin> set (profiles s) \<and> profiles s' = profiles s @ [p] \<and>
      GetHandle p s' = h \<and> (\<forall>q \<in> set (profiles s). GetHandle q s' = GetHandle q s)"
    using inv NewProfile_inv [OF inv, of h]
    by (auto simp: NewProfile_def push_profile_def Let_def Profile2_def GetHandle_def profile_inv_def nth_append)
qed

lemma handles_unique_names:
  "profile_inv pm \<Longrightarrow> handles_unique pm \<longleftrightarrow> distinct (map (\<lambda>q. GetHandle q pm) (profiles pm))"
proof -
  assume "profile_inv pm"
  then have "map (\<lambda>q. GetHandle q pm) (profiles pm) = map handle (profileHeap pm)"
    by (auto simp: profile_inv_def GetHandle_def intro: nth_equalityI)
  then show ?thesis by (simp add: handles_unique_def)
qed

text \<open>Two profiles on an empty disk, for concrete runs.\<close>

definition example_profiles :: ProfileManager where
  "example_profiles = \<lparr>profiles = [0, 1], profileHeap = [Profile2 ''bia'', Profile2 ''ana''],
     profilesFile = None, writable = True\<rparr>"

section \<open>Properties\<close>

text \<open>
  C27.  Creating a profile that the lookup did not find: the directory then finds exactly the new
  profile under its name, finds every other profile as before, keeps handles unique, and the new
  profile has no followers and an indeterminate session pointer.
\<close>

theorem NewProfile_lookup:
  assumes "profile_inv pm" and "handles_unique pm" and "GetProfileByName h pm = None"
    and "NewProfile h pm = (p, pm')"
  shows "GetProfileByName h pm' = Some p \<and> profile_inv pm' \<and> handles_unique pm' \<and>
    (\<forall>q < length (profileHeap pm). GetProfileByName (GetHandle q pm) pm' = Some q) \<and>
    GetFollowers p pm' = [] \<and> GetSession p pm' = Indeterminate"
proof -
  note c = dir.create_members [OF assms(1,4)]
  have d: "distinct (map (\<lambda>q. GetHandle q pm) (profiles pm))"
    using assms(1,2) by (simp add: handles_unique_names)
  have d': "distinct (map (\<lambda>q. GetHandle q pm') (profiles pm'))"
    using dir.create_unique [OF assms(1,3,4) d] .
  have "GetProfileByName (GetHandle q pm) pm' = Some q" if "q < length (profileHeap pm)" for q
  proof -
    have "q \<in> set (profiles pm)" using that assms(1) by (simp add: profile_inv_def)
    then show ?thesis using dir.lookup_unique [of pm' q] c d' by auto
  qed
  then show ?thesis
    using c d' dir.lookup_created [OF assms(1,3,4)] assms(4)
    by (auto simp: handles_unique_names NewProfile_def push_profile_def Let_def Profile2_def
        GetFollowers_def GetSession_def)
qed

theorem NewProfile_lookup_witness:
  "let pm = \<lparr>profiles = [0], profileHeap = [Profile2 ''bia''], profilesFile = None, writable = True\<rparr>;
       (p, pm') = NewProfile ''ana'' pm
   in GetProfileByName ''ana'' pm' = Some p \<and> handles_unique pm' \<and> GetSession p pm' = Indeterminate"
proof -
  let ?pm = "\<lparr>profiles = [0], profileHeap = [Profile2 ''bia''], profilesFile = None, writable = True\<rparr>"
  obtain p pm' where n: "NewProfile ''ana'' ?pm = (p, pm')" by fastforce
  have "GetProfileByName ''ana'' pm' = Some p \<and> profile_inv pm' \<and> handles_unique pm' \<and>
    (\<forall>q < length (profileHeap ?pm). GetProfileByName (GetHandle q ?pm) pm' = Some q) \<and>
    GetFollowers p pm' = [] \<and> GetSession p pm' = Indeterminate"
    by (rule NewProfile_lookup [OF _ _ _ n])
      (simp_all add: profile_inv_def profile_ok_def handles_unique_def GetProfileByName_def GetHandle_def Profile2_def)
  then show ?thesis by (simp add: n Let_def)
qed

text \<open>
  C28.  Following: \<open>AddFollower\<close> answers 1 and appends the follower when the user exists and does
  not follow yet, answers 0 and changes nothing when he does, and leaves the state alone, without a
  defined answer, when he does not exist; no other profile's followers change and nobody ever
  follows twice.
\<close>

theorem AddFollower_correct:
  assumes "profile_inv pm" and "t < length (profileHeap pm)" and "AddFollower t u d pm = (r, pm')"
  shows "(case GetProfileByName u pm of
      None \<Rightarrow> r = None \<and> pm' = pm
    | Some f \<Rightarrow>
        if f \<in> set (GetFollowers t pm) then r = Some 0 \<and> pm' = pm
        else r = Some 1 \<and> GetFollowers t pm' = GetFollowers t pm @ [f])
    \<and> (\<forall>q. q \<noteq> t \<longrightarrow> GetFollowers q pm' = GetFollowers q pm) \<and> distinct (GetFollowers t pm') \<and> profile_inv pm'"
proof -
  have pm': "pm' = snd (AddFollower t u d pm)" and r: "r = fst (AddFollower t u d pm)"
    using assms(3) by auto
  have inv': "profile_inv pm'" using AddFollower_inv [OF assms(1)] pm' by simp
  then have "distinct (GetFollowers t pm')"
    using assms(2) AddFollower_heap(1) [OF assms(1), of t u d] pm'
    by (simp add: profile_inv_iff profile_ok_def GetFollowers_def)
  moreover have "case GetProfileByName u pm of
      None \<Rightarrow> r = None \<and> pm' = pm
    | Some f \<Rightarrow> if f \<in> set (GetFollowers t pm) then r = Some 0 \<and> pm' = pm else r = Some 1"
    using r pm' by (auto simp: AddFollower_def Let_def split: option.split)
  ultimately show ?thesis
    using inv' AddFollower_followers [OF assms(2), of _ u d]
    by (auto simp: pm' split: option.splits)
qed

theorem AddFollower_correct_witness:
  "fst (AddFollower 0 ''ana'' True example_profiles) = Some 1 \<and>
   GetFollowers 0 (snd (AddFollower 0 ''ana'' True example_profiles)) = [1]"
proof -
  have "profile_inv example_profiles" "0 < length (profileHeap example_profiles)"
    by (simp_all add: example_profiles_def profile_inv_def profile_ok_def Profile2_def upt_rec)
  note c = AddFollower_correct [OF this prod.collapse [symmetric], of "''ana''" True]
  have "GetProfileByName ''ana'' example_profiles = Some 1" "GetFollowers 0 example_profiles = []"
    by (simp_all add: example_profiles_def GetProfileByName_def GetHandle_def GetFollowers_def Profile2_def)
  with c show ?thesis by simp
qed

text \<open>
  Called without a profile to exclude, as the default argument has it, the two functions that
  enumerate connected users return nothing, whoever is connected.
\<close>

lemma GetConnected_default_empty:
  "GetConnectedUsers None pm sm = Inr [] \<and> GetConnectedSockets None pm sm = Inr []"
  by (simp add: GetConnectedUsers_def GetConnectedSockets_def res_fold_Inr)

end
