(* ===== verification/Profile_Store.thy ===== *)
theory Profile_Store
  imports Profiles
begin

text \<open>
  Loading the profiles (\<open>ProfileManager::ReadProfilesFromFile\<close> and the constructor in
  \<open>source/server/ProfileManager.cpp\<close>).  The loop over the follower lines ends when the stream
  is at its end or a line is empty; on a stream that failed before its end with a non-empty line
  it would not end at all, so it is a partial function and \<open>None\<close> stands for not returning.
  The file is read back exactly as \<open>Sync\<close> wrote it, although the loop handles the last line
  twice: at the end of the stream the extraction leaves the variable as it was.
\<close>

section \<open>Operations\<close>

text \<open>\<open>split(s, delimiter)\<close>.\<close>

definition split_at :: "string \<Rightarrow> char \<Rightarrow> string list" where
  "split_at s delimiter = getlines delimiter s"

text \<open>The loop over the handles; \<open>profileName\<close> keeps its value when an extraction fails.\<close>

fun read_names ::
  "nat \<Rightarrow> string \<Rightarrow> istream \<Rightarrow> (string, nat) std_map \<Rightarrow> ProfileManager
    \<Rightarrow> istream \<times> (string, nat) std_map \<times> ProfileManager" where
  "read_names 0 profileName is profilesMap pm = (is, profilesMap, pm)"
| "read_names (Suc k) profileName is profilesMap pm =
     (let (profileName', is') = read_word profileName is;
          (prof, pm') = push_profile (Profile2 profileName') pm
      in read_names k profileName' is' (map_insert profileName' prof profilesMap) pm')"

text \<open>The loop over the follower lines.\<close>

partial_function (option) read_followers ::
  "string \<Rightarrow> istream \<Rightarrow> (string, nat) std_map \<Rightarrow> ProfileManager \<Rightarrow> ProfileManager res option" where
  "read_followers line is profilesMap pm =
     (if eofbit is then Some (Inr pm)
      else
        (let (line', is') = read_word line is in
         if line' = [] then Some (Inr pm)
         else
           (case split_at line' CHR '','' of
              user # toFollow # _ \<Rightarrow>
                (case map_find user profilesMap of
                   None \<Rightarrow> Some (Inl OutOfRange)
                 | Some userPtr \<Rightarrow>
                     read_followers line' is' profilesMap (snd (AddFollower userPtr toFollow False pm)))
            | _ \<Rightarrow> Some (Inl IndexOutOfRange))))"

definition ReadProfilesFromFile :: "ProfileManager \<Rightarrow> (int \<times> ProfileManager) res option" where
  "ReadProfilesFromFile pm =
     (case profilesFile pm of
        None \<Rightarrow> Some (Inr (0, pm))
      | Some text \<Rightarrow>
          (let (num, is1) = read_int None \<lparr>rest = text, eofbit = False, failbit = False\<rparr> in
           (case num of
              None \<Rightarrow> Some (Inl UninitialisedRead)
            | Some numProfiles \<Rightarrow>
                (let (is2, profilesMap, pm1) = read_names (nat numProfiles) [] is1 [] pm in
                 map_option (\<lambda>r. res_bind r (\<lambda>pm2. Inr (numProfiles, pm2)))
                   (read_followers [] is2 profilesMap pm1)))))"

definition ProfileManager_new :: "string option \<Rightarrow> bool \<Rightarrow> ProfileManager res option" where
  "ProfileManager_new file w =
     map_option (\<lambda>r. res_bind r (\<lambda>(n, pm). Inr pm))
       (ReadProfilesFromFile \<lparr>profiles = [], profileHeap = [], profilesFile = file, writable = w\<rparr>)"

section \<open>Termination\<close>

text \<open>Every round on a good stream shortens it or reaches its end.\<close>

lemma read_word_progress:
  assumes "good is" and "read_word old is = (w, is')"
  shows "(eofbit is' \<or> good is' \<and> length (rest is') < length (rest is))"
proof (cases "rest is" rule: words_cases)
  case blank
  then show ?thesis using read_word_end [OF assms(1)] assms(2) by auto
next
  case (word b c cs)
  have "length (dropWhile (\<lambda>c. \<not> isspace c) (c # cs)) < length (c # cs)"
    using word(3) by (intro length_dropWhile_lt) auto
  then show ?thesis
    using read_word_word [OF assms(1) word, of old] assms word(1) by (auto simp: good_def)
qed

lemma read_followers_eof [simp]: "eofbit is \<Longrightarrow> read_followers l is m pm = Some (Inr pm)"
  by (subst read_followers.simps) simp

lemma read_followers_good:
  "good is \<Longrightarrow> \<exists>r. read_followers line is m pm = Some r"
proof (induction "length (rest is)" arbitrary: line "is" pm rule: less_induct)
  case less
  obtain l' is' where w: "read_word line is = (l', is')" by fastforce
  have next_ok: "\<exists>r. read_followers l' is' m pm' = Some r" for pm'
    using read_word_progress [OF less.prems w] less.hyps by (auto simp: read_followers_eof)
  have "\<not> eofbit is" using less.prems by (simp add: good_def)
  then show ?case
    using next_ok by (subst read_followers.simps) (auto simp: w Let_def split: list.split option.split)
qed

lemma read_followers_start: "\<exists>r. read_followers [] is m pm = Some r"
proof (cases "good is")
  case True
  then show ?thesis by (rule read_followers_good)
next
  case False
  then have "fst (read_word [] is) = []" by (simp add: read_word_bad)
  then show ?thesis by (subst read_followers.simps) (auto simp: Let_def split_def)
qed

section \<open>Reading back what was written\<close>

abbreviation nl :: char where "nl \<equiv> CHR 0x0A"

definition handle_ok :: "string \<Rightarrow> bool" where
  "handle_ok h \<longleftrightarrow> h \<noteq> [] \<and> (\<forall>c \<in> set h. \<not> isspace c \<and> c \<noteq> CHR '','')"

text \<open>The heap after the handles \<open>hs\<close> and the follower edges \<open>es\<close> were read.\<close>

definition loaded :: "string list \<Rightarrow> (nat \<times> nat) list \<Rightarrow> Profile list" where
  "loaded hs es = map (\<lambda>i. \<lparr>handle = hs ! i, followers = map snd (filter (\<lambda>e. fst e = i) es),
     session = Indeterminate\<rparr>) [0..<length hs]"

definition edges :: "ProfileManager \<Rightarrow> (nat \<times> nat) list" where
  "edges pm = concat (map (\<lambda>p. map (\<lambda>f. (p, f)) (GetFollowers p pm)) (profiles pm))"

definition edge_line :: "string list \<Rightarrow> nat \<times> nat \<Rightarrow> string" where
  "edge_line hs e = hs ! fst e @ '','' @ hs ! snd e"

lemma isspace_nl [simp]: "isspace nl"
  by (simp add: isspace_def)

lemma length_loaded [simp]: "length (loaded hs es) = length hs"
  by (simp add: loaded_def)

lemma loaded_nth:
  "i < length hs \<Longrightarrow> loaded hs es ! i =
    \<lparr>handle = hs ! i, followers = map snd (filter (\<lambda>e. fst e = i) es), session = Indeterminate\<rparr>"
  by (simp add: loaded_def)

lemma loaded_Nil: "loaded hs [] = map Profile2 hs"
  by (auto simp: loaded_def Profile2_def intro: nth_equalityI)

lemma upt_Suc_Cons: "[n..<Suc (n + k)] = n # [Suc n..<Suc (n + k)]"
  by (simp add: upt_conv_Cons del: upt_Suc)

lemma read_names_eq:
  assumes "\<forall>h \<in> set hs. handle_ok h" and "good is"
    and "rest is = nl # concat (map (\<lambda>h. h @ [nl]) hs) @ t"
  shows "read_names (length hs) old is m pm =
    (is\<lparr>rest := nl # t\<rparr>,
     fold (\<lambda>(k, v). map_insert k v) (zip hs [length (profileHeap pm)..<length (profileHeap pm) + length hs]) m,
     pm\<lparr>profileHeap := profileHeap pm @ map Profile2 hs,
        profiles := profiles pm @ [length (profileHeap pm)..<length (profileHeap pm) + length hs]\<rparr>)"
  using assms
proof (induction hs arbitrary: old "is" m pm)
  case Nil
  then show ?case by (cases "is"; cases pm) simp
next
  case (Cons h hs)
  have "read_word old is = (h, is\<lparr>rest := nl # concat (map (\<lambda>h. h @ [nl]) hs) @ t\<rparr>)"
    using Cons.prems by (intro read_word_blank [of "is" "[nl]"]) (auto simp: handle_ok_def)
  moreover have "good (is\<lparr>rest := nl # concat (map (\<lambda>h. h @ [nl]) hs) @ t\<rparr>)"
    using Cons.prems(2) by (simp add: good_def)
  ultimately show ?case
    using Cons.prems(1) Cons.IH by (simp add: push_profile_def Let_def upt_Suc_Cons del: upt_Suc)
qed

lemma handle_ok_line:
  assumes "handle_ok a" and "handle_ok b"
  shows "split_at (a @ '','' @ b) CHR '','' = [a, b]"
proof -
  have "CHR '','' \<notin> set a" "CHR '','' \<notin> set b" "b \<noteq> []" using assms by (auto simp: handle_ok_def)
  then show ?thesis by (simp add: split_at_def getlines_delim getlines_last)
qed

lemma lookup_loaded:
  assumes "profileHeap pm = loaded hs es" and "profiles pm = [0..<length hs]"
    and "distinct hs" and "i < length hs"
  shows "GetProfileByName (hs ! i) pm = Some i"
proof -
  have h: "GetHandle j pm = hs ! j" if "j < length hs" for j
    using that assms(1) by (simp add: GetHandle_def loaded_nth)
  have "\<exists>j < length hs. [0..<length hs] ! j = i \<and> (\<forall>k < j. hs ! k \<noteq> hs ! i)"
    using assms(3,4) by (intro exI [of _ i]) (auto simp: nth_eq_iff_index_eq)
  then show ?thesis
    using assms(2,4) h by (auto simp: GetProfileByName_def find_Some_iff)
qed

lemma AddFollower_loaded:
  assumes heap: "profileHeap pm = loaded hs es" "profiles pm = [0..<length hs]" and "distinct hs"
    and uf: "u < length hs" "f < length hs"
  shows "snd (AddFollower u (hs ! f) False pm) =
    (if (u, f) \<in> set es then pm else pm\<lparr>profileHeap := loaded hs (es @ [(u, f)])\<rparr>)"
proof -
  have l: "GetProfileByName (hs ! f) pm = Some f" using lookup_loaded assms by blast
  have fl: "f \<in> set (GetFollowers u pm) \<longleftrightarrow> (u, f) \<in> set es"
    using heap uf by (force simp: GetFollowers_def loaded_nth)
  have "(loaded hs es)[u := (loaded hs es ! u)\<lparr>followers := followers (loaded hs es ! u) @ [f]\<rparr>]
      = loaded hs (es @ [(u, f)])"
    using uf by (intro nth_equalityI) (auto simp: loaded_nth nth_list_update)
  with l fl heap(1) show ?thesis by (simp add: AddFollower_def Let_def)
qed

lemma read_followers_eq:
  assumes hs: "\<forall>h \<in> set hs. handle_ok h" "distinct hs"
    and m: "\<And>i. i < length hs \<Longrightarrow> map_find (hs ! i) m = Some i"
    and es: "distinct (es0 @ es)" "\<forall>(u, f) \<in> set (es0 @ es). u < length hs \<and> f < length hs"
    and pm: "profileHeap pm = loaded hs es0" "profiles pm = [0..<length hs]"
    and old: "old = [] \<or> (\<exists>e \<in> set es0. old = edge_line hs e)"
    and str: "good is" "rest is = nl # concat (map (\<lambda>e. edge_line hs e @ [nl]) es)"
  shows "read_followers old is m pm = Some (Inr (pm\<lparr>profileHeap := loaded hs (es0 @ es)\<rparr>))"
  using es pm old str
proof (induction es arbitrary: es0 old "is" pm)
  case Nil
  have w: "read_word old is = (old, is\<lparr>rest := [], eofbit := True, failbit := True\<rparr>)"
    using Nil.prems(6,7) by (intro read_word_end) auto
  have id: "pm\<lparr>profileHeap := loaded hs (es0 @ [])\<rparr> = pm" using Nil.prems(3) by (cases pm) simp
  show ?case
  proof (cases "old = []")
    case True
    then show ?thesis using w id Nil.prems(6) by (subst read_followers.simps) (simp add: good_def)
  next
    case False
    then obtain e where e: "e \<in> set es0" "old = edge_line hs e" using Nil.prems(5) by blast
    obtain u f where uf0: "e = (u, f)" by fastforce
    with e have uf: "(u, f) \<in> set es0" "old = hs ! u @ '','' @ hs ! f" by (simp_all add: edge_line_def)
    then have lt: "u < length hs" "f < length hs" using Nil.prems(2) by auto
    have "split_at old CHR '','' = [hs ! u, hs ! f]"
      unfolding uf(2) by (rule handle_ok_line) (use lt hs in auto)
    then show ?thesis
      using False w id uf(1) m [OF lt(1)] Nil.prems(6) AddFollower_loaded [OF Nil.prems(3,4) hs(2) lt]
      by (subst read_followers.simps) (simp add: good_def)
  qed
next
  case (Cons e es)
  obtain u f where e: "e = (u, f)" by fastforce
  have lt: "u < length hs" "f < length hs" using Cons.prems(2) e by auto
  have ok: "handle_ok (hs ! u)" "handle_ok (hs ! f)" using hs lt by auto
  let ?is = "is\<lparr>rest := nl # concat (map (\<lambda>e. edge_line hs e @ [nl]) es)\<rparr>"
  have w: "read_word old is = (edge_line hs e, ?is)"
    using Cons.prems(6,7) ok e
    by (intro read_word_blank [of "is" "[nl]"]) (auto simp: edge_line_def handle_ok_def isspace_def)
  have new: "(u, f) \<notin> set es0" using Cons.prems(1) e by auto
  let ?pm = "snd (AddFollower u (hs ! f) False pm)"
  have pm: "?pm = pm\<lparr>profileHeap := loaded hs (es0 @ [e])\<rparr>"
    using AddFollower_loaded [OF Cons.prems(3,4) hs(2) lt] new e by simp
  have "split_at (edge_line hs e) CHR '','' = [hs ! u, hs ! f]"
    unfolding edge_line_def using handle_ok_line [OF ok] e by simp
  moreover have "edge_line hs e \<noteq> []" by (simp add: edge_line_def)
  ultimately have "read_followers old is m pm = read_followers (edge_line hs e) ?is m ?pm"
    using w m [OF lt(1)] Cons.prems(6) by (subst read_followers.simps) (simp add: good_def)
  also have "\<dots> = Some (Inr (?pm\<lparr>profileHeap := loaded hs ((es0 @ [e]) @ es)\<rparr>))"
    using Cons.prems pm by (intro Cons.IH) (auto simp: good_def)
  finally show ?case using pm by simp
qed

lemma follower_lines_edges:
  "follower_lines pm = map (\<lambda>(p, f). GetHandle p pm @ '','' @ GetHandle f pm) (edges pm)"
  by (simp add: follower_lines_def edges_def map_concat comp_def)

lemma edges_facts:
  assumes inv: "profile_inv pm"
  shows "\<forall>(u, f) \<in> set (edges pm). u < length (profileHeap pm) \<and> f < length (profileHeap pm)"
    and "distinct (edges pm)"
    and "u < length (profileHeap pm) \<Longrightarrow> map snd (filter (\<lambda>e. fst e = u) (edges pm)) = GetFollowers u pm"
proof -
  let ?n = "length (profileHeap pm)" and ?g = "\<lambda>p. map (\<lambda>f. (p, f)) (GetFollowers p pm)"
  have e: "edges pm = concat (map ?g [0..<?n])" using inv by (simp add: edges_def profile_inv_def)
  have ok: "set (GetFollowers p pm) \<subseteq> {..<?n} \<and> distinct (GetFollowers p pm)" if "p < ?n" for p
    using inv that by (simp add: profile_inv_iff profile_ok_def GetFollowers_def)
  then show "\<forall>(u, f) \<in> set (edges pm). u < ?n \<and> f < ?n" by (fastforce simp: e)
  have "k \<le> ?n \<Longrightarrow> distinct (concat (map ?g [0..<k]))" for k
    by (induction k) (use ok in \<open>auto simp: distinct_map inj_on_def\<close>)
  then show "distinct (edges pm)" by (simp add: e)
  have "map snd (filter (\<lambda>e. fst e = u) (concat (map ?g [0..<k]))) = (if u < k then GetFollowers u pm else [])" for k u
  proof (induction k)
    case (Suc k)
    have "filter (\<lambda>e. fst e = u) (?g k) = (if u = k then ?g k else [])"
      by (auto simp: filter_map comp_def)
    with Suc show ?case by (auto simp: comp_def less_Suc_eq)
  qed simp
  then show "u < ?n \<Longrightarrow> map snd (filter (\<lambda>e. fst e = u) (edges pm)) = GetFollowers u pm" by (simp add: e)
qed

lemma loaded_edges:
  assumes "profile_inv pm"
  shows "loaded (map handle (profileHeap pm)) (edges pm) = map (\<lambda>p. p\<lparr>session := Indeterminate\<rparr>) (profileHeap pm)"
  using edges_facts(3) [OF assms] by (intro nth_equalityI) (auto simp: loaded_nth GetFollowers_def)

lemma Sync_Read:
  assumes "profile_inv pm" and "handles_unique pm" and "\<forall>p \<in> set (profileHeap pm). handle_ok (handle p)"
    and "int (length (profileHeap pm)) \<le> INT_MAX" and "writable pm"
  shows "ProfileManager_new (profilesFile (Sync pm)) w =
    Some (Inr \<lparr>profiles = profiles pm,
      profileHeap = map (\<lambda>p. p\<lparr>session := Indeterminate\<rparr>) (profileHeap pm),
      profilesFile = profilesFile (Sync pm), writable = w\<rparr>)"
proof -
  let ?hs = "map handle (profileHeap pm)" and ?n = "length (profileHeap pm)"
  let ?lines = "concat (map (\<lambda>e. edge_line ?hs e @ [nl]) (edges pm))"
  let ?is = "\<lparr>rest = profiles_text pm, eofbit = False, failbit = False\<rparr>"
  let ?pm0 = "\<lparr>profiles = [], profileHeap = [], profilesFile = Some (profiles_text pm), writable = w\<rparr>"
  have hs: "\<forall>h \<in> set ?hs. handle_ok h" "distinct ?hs" using assms(2,3) by (auto simp: handles_unique_def)
  have p: "profiles pm = [0..<?n]" using assms(1) by (simp add: profile_inv_def)
  have names: "concat (map (\<lambda>p. GetHandle p pm @ [nl]) (profiles pm)) = concat (map (\<lambda>h. h @ [nl]) ?hs)"
  proof -
    have "map (\<lambda>p. GetHandle p pm @ [nl]) [0..<?n] = map (\<lambda>h. h @ [nl]) ?hs"
      by (intro nth_equalityI) (auto simp: GetHandle_def)
    then show ?thesis by (simp only: p)
  qed
  have lines: "concat (map (\<lambda>l. l @ [nl]) (follower_lines pm)) = ?lines"
  proof -
    have "map (\<lambda>l. l @ [nl]) (follower_lines pm) = map (\<lambda>e. edge_line ?hs e @ [nl]) (edges pm)"
      using edges_facts(1) [OF assms(1)]
      by (auto simp: follower_lines_edges edge_line_def GetHandle_def)
    then show ?thesis by (simp only:)
  qed
  have "rest ?is = show_nat ?n @ nl # concat (map (\<lambda>h. h @ [nl]) ?hs) @ ?lines"
    using names lines p by (simp add: profiles_text_def)
  then have int: "read_int None ?is = (Some (int ?n), ?is\<lparr>rest := nl # concat (map (\<lambda>h. h @ [nl]) ?hs) @ ?lines\<rparr>)"
    using assms(4) by (intro read_int_show_nat) (auto simp: good_def)
  let ?m = "fold (\<lambda>(k, v). map_insert k v) (zip ?hs [0..<?n]) []"
  let ?pm1 = "?pm0\<lparr>profileHeap := map Profile2 ?hs, profiles := [0..<?n]\<rparr>"
  have names_read: "read_names ?n [] (?is\<lparr>rest := nl # concat (map (\<lambda>h. h @ [nl]) ?hs) @ ?lines\<rparr>) [] ?pm0 =
      (?is\<lparr>rest := nl # ?lines\<rparr>, ?m, ?pm1)"
    using read_names_eq [OF hs(1), of "?is\<lparr>rest := nl # concat (map (\<lambda>h. h @ [nl]) ?hs) @ ?lines\<rparr>" ?lines "[]" "[]" ?pm0]
    by (simp add: good_def)
  have m: "map_find (?hs ! i) ?m = Some i" if "i < length ?hs" for i
  proof -
    have "map_of (zip ?hs [0..<?n]) (?hs ! i) = Some ([0..<?n] ! i)"
      using that hs(2) by (intro map_of_zip_nth) auto
    then have "map_of (zip ?hs [0..<?n]) (?hs ! i) = Some i" using that by simp
    then show ?thesis
      using std.fold_insert_find [OF std.invar_empty, of "?hs ! i" "zip ?hs [0..<?n]"] by (simp only: std.find_empty) simp
  qed
  have "read_followers [] (?is\<lparr>rest := nl # ?lines\<rparr>) ?m ?pm1 =
      Some (Inr (?pm1\<lparr>profileHeap := loaded ?hs ([] @ edges pm)\<rparr>))"
    using edges_facts(1,2) [OF assms(1)]
    by (intro read_followers_eq [OF hs m]) (auto simp: good_def loaded_Nil)
  then show ?thesis
    using int names_read assms(5) p loaded_edges [OF assms(1)]
    by (simp add: ProfileManager_new_def ReadProfilesFromFile_def Sync_def)
qed

section \<open>Properties\<close>

text \<open>
  C20.  Loading always returns: whatever the file holds, \<open>ReadProfilesFromFile\<close> ends with a value
  or one of the failures, although its second loop is not bounded by the number it read.
\<close>

theorem ReadProfilesFromFile_returns: "\<exists>r. ReadProfilesFromFile pm = Some r"
proof -
  have r: "\<exists>z. read_followers [] is m pm' = Some z" for "is" m pm' by (rule read_followers_start)
  show ?thesis
    unfolding ReadProfilesFromFile_def by (auto simp: r Let_def split_def split: option.split)
qed

text \<open>
  C13.  Persistence: for unique handles without blanks and commas, loading the file that \<open>Sync\<close>
  wrote restores every profile at its place with its handle and its followers in their order; the
  session pointers are left indeterminate.
\<close>

theorem Sync_Read_roundtrip:
  assumes "profile_inv pm" and "handles_unique pm" and "\<forall>p \<in> set (profileHeap pm). handle_ok (handle p)"
    and "int (length (profileHeap pm)) \<le> INT_MAX" and "writable pm"
  shows "ProfileManager_new (profilesFile (Sync pm)) w =
    Some (Inr \<lparr>profiles = profiles pm,
      profileHeap = map (\<lambda>p. p\<lparr>session := Indeterminate\<rparr>) (profileHeap pm),
      profilesFile = profilesFile (Sync pm), writable = w\<rparr>)"
  using Sync_Read [OF assms] .

theorem Sync_Read_roundtrip_witness:
  "ProfileManager_new (profilesFile (Sync (snd (AddFollower 0 ''ana'' True example_profiles)))) False =
    Some (Inr \<lparr>profiles = profiles (snd (AddFollower 0 ''ana'' True example_profiles)),
      profileHeap = map (\<lambda>p. p\<lparr>session := Indeterminate\<rparr>)
        (profileHeap (snd (AddFollower 0 ''ana'' True example_profiles))),
      profilesFile = profilesFile (Sync (snd (AddFollower 0 ''ana'' True example_profiles))),
      writable = False\<rparr>)"
proof (rule Sync_Read_roundtrip)
  let ?pm = "snd (AddFollower 0 ''ana'' True example_profiles)"
  have inv: "profile_inv example_profiles"
    by (simp add: example_profiles_def profile_inv_def profile_ok_def Profile2_def upt_rec)
  have heap: "profileHeap ?pm = [(Profile2 ''bia'')\<lparr>followers := [1]\<rparr>, Profile2 ''ana'']" and "writable ?pm"
    by (simp_all add: AddFollower_def GetProfileByName_def GetHandle_def GetFollowers_def example_profiles_def Profile2_def)
  show "profile_inv ?pm" by (rule AddFollower_inv [OF inv])
  show "handles_unique ?pm" by (simp add: handles_unique_def heap Profile2_def)
  show "\<forall>p \<in> set (profileHeap ?pm). handle_ok (handle p)"
    by (simp add: heap Profile2_def handle_ok_def isspace_def)
  show "int (length (profileHeap ?pm)) \<le> INT_MAX" by (simp add: heap)
  show "writable ?pm" by fact
qed

end
