(* ===== verification/Server.thy ===== *)
theory Server
  imports Replica Profile_Store
begin

text \<open>
  The server (\<open>source/server/server.hpp\<close>, \<open>server.cpp\<close>, \<open>PendingNotification.hpp\<close>,
  \<open>main.cpp\<close>).  The record extends \<open>ServerCore\<close> with the managers, the queue of pending
  notifications and the handler threads that \<open>Listen\<close> spawned.  Every case of
  \<open>MessageHandler\<close> is a definition of its own; console output is left out, but the reads it
  performs are kept where they can fail.  The replies that the source has commented out are not
  part of the model.  One round of each of the two endless loops is a function:
  \<open>Listen_round\<close> for a datagram and \<open>Worker_round\<close> for the notification worker.
\<close>

section \<open>Data\<close>

record PendingNotification =
  senderUsername :: string
  pn_body :: string
  recipient :: nat

record Server = ServerCore +
  bindAddress :: string
  bindPort :: int
  socketDescr :: "int option"
  isListening :: bool
  messageHandlerThreads :: "(Packet \<times> SocketAddress) list"
  notificationQueue :: "PendingNotification list"
  profileManager :: ProfileManager
  sessionManager :: SessionManager
  replicaManager :: ReplicaManager

abbreviation (input) bufferSize :: nat where "bufferSize \<equiv> 2048"

definition PendingNotification_new :: "string \<Rightarrow> string \<Rightarrow> nat \<Rightarrow> PendingNotification" where
  "PendingNotification_new sender b r = \<lparr>senderUsername = sender, pn_body = b, recipient = r\<rparr>"

text \<open>
  The constructor: \<open>d\<close> is what \<open>socket()\<close> returned, \<open>file\<close> and \<open>w\<close> the profile file and
  whether it can be written.
\<close>

definition Server_new ::
  "int \<Rightarrow> string option \<Rightarrow> bool \<Rightarrow> string \<Rightarrow> int \<Rightarrow> string \<Rightarrow> bool \<Rightarrow> Server res option" where
  "Server_new d file w bAddress bPort peersList primary =
     map_option (\<lambda>r. res_bind r (\<lambda>pm.
       res_bind (ReplicaManager_new bAddress bPort primary peersList) (\<lambda>rm.
         Inr \<lparr>lastSeqn = 0, srv_socket = snd (Bind bAddress bPort (Socket_new d)), sent = [],
              bindAddress = bAddress, bindPort = bPort, socketDescr = None, isListening = True,
              messageHandlerThreads = [], notificationQueue = [], profileManager = pm,
              sessionManager = SessionManager_new, replicaManager = rm\<rparr>)))
       (ProfileManager_new file w)"

text \<open>\<open>Stop\<close> closes a descriptor that no code initialises.\<close>

definition Stop :: "Server \<Rightarrow> Server res" where
  "Stop s = (case socketDescr s of None \<Rightarrow> Inl UninitialisedRead | Some d \<Rightarrow> Inr s)"

text \<open>The environment of \<open>main\<close>: address, port, peers and role, or the failure of the log line.\<close>

definition main_arguments ::
  "(string \<Rightarrow> string option) \<Rightarrow> (string \<times> int \<times> string \<times> bool) res" where
  "main_arguments getenv =
     (let bindIp = (case getenv ''BIND_IP'' of None \<Rightarrow> [] | Some v \<Rightarrow> v);
          peersArg = (case getenv ''PEERS'' of None \<Rightarrow> [] | Some v \<Rightarrow> v);
          primary = (case getenv ''PRIMARY'' of None \<Rightarrow> False | Some v \<Rightarrow> c_str v = ''true'')
      in res_bind (case getenv ''BIND_PORT'' of None \<Rightarrow> Inr (- 1) | Some v \<Rightarrow> atoi v) (\<lambda>bPort.
           if getenv ''PEERS'' = None then Inl NullDereference
           else Inr (bindIp, bPort, peersArg, primary)))"

definition server_main ::
  "int \<Rightarrow> string option \<Rightarrow> bool \<Rightarrow> (string \<Rightarrow> string option) \<Rightarrow> Server res option" where
  "server_main d file w getenv =
     (case main_arguments getenv of
        Inl e \<Rightarrow> Some (Inl e)
      | Inr (bindIp, bPort, peersArg, primary) \<Rightarrow> Server_new d file w bindIp bPort peersArg primary)"

section \<open>Sending\<close>

definition Reply :: "Os \<Rightarrow> SocketAddress \<Rightarrow> Packet \<Rightarrow> 'z ServerCore_scheme \<Rightarrow> 'z ServerCore_scheme res" where
  "Reply os a message s = res_bind (socket_send os a message s) (\<lambda>(r, s'). Inr s')"

definition Broadcast :: "Os \<Rightarrow> Packet \<Rightarrow> nat option \<Rightarrow> Server \<Rightarrow> Server res" where
  "Broadcast os message exclude s =
     res_bind (GetConnectedSockets exclude (profileManager s) (sessionManager s))
       (\<lambda>ss. res_fold (\<lambda>a. Reply os a message) ss s)"

section \<open>The message handler\<close>

definition handle_CONNECT :: "Os \<Rightarrow> Packet \<Rightarrow> SocketAddress \<Rightarrow> Server \<Rightarrow> Server res" where
  "handle_CONNECT os message a s =
     res_bind (packet_text message) (\<lambda>username.
       (let (profile, pm1) =
              (case GetProfileByName username (profileManager s) of
                 Some p \<Rightarrow> (p, profileManager s)
               | None \<Rightarrow> NewProfile username (profileManager s));
            (ses, sm1) = StartSession (GetHandle profile pm1) a (sessionManager s)
        in res_bind
             (case ses of
                Some q \<Rightarrow>
                  (let pm2 = SetSession profile (SessionAt q) pm1
                   in res_bind (GetConnectedUsers (Some profile) pm2 sm1) (\<lambda>users. Inr pm2))
              | None \<Rightarrow> Inr pm1)
             (\<lambda>pm2.
               let s1 = s\<lparr>profileManager := pm2, sessionManager := sm1\<rparr>
               in res_bind
                    (if IsPrimary (replicaManager s1)
                     then BroadcastToSecondaries os message a (replicaManager s1) s1
                     else ConfirmMessage os (seqn message) (replicaManager s1) s1)
                    (\<lambda>(rm, s2). Inr (s2\<lparr>replicaManager := rm\<rparr>)))))"

definition handle_DISCONNECT :: "Packet \<Rightarrow> SocketAddress \<Rightarrow> Server \<Rightarrow> Server res" where
  "handle_DISCONNECT message a s =
     res_bind (packet_text message) (\<lambda>username.
       (case GetProfileByName username (profileManager s) of
          Some profile \<Rightarrow>
            (let (ended, sm) = EndSession (GetHandle profile (profileManager s)) a (sessionManager s)
             in Inr (s\<lparr>sessionManager := sm\<rparr>))
        | None \<Rightarrow> Inr s))"

definition handle_FOLLOW :: "Packet \<Rightarrow> SocketAddress \<Rightarrow> Server \<Rightarrow> Server res" where
  "handle_FOLLOW message a s =
     res_bind (packet_text message) (\<lambda>usernameToFollow.
       (case GetUserNameByAddressAndIP a (sessionManager s) of
          Some username \<Rightarrow>
            (let profile = GetProfileByName usernameToFollow (profileManager s) in
             if usernameToFollow = username then Inr s
             else
               (case profile of
                  Some p \<Rightarrow>
                    (let (r, pm) = AddFollower p username True (profileManager s)
                     in (case r of
                           None \<Rightarrow> Inl MissingReturn
                         | Some _ \<Rightarrow> Inr (s\<lparr>profileManager := pm\<rparr>)))
                | None \<Rightarrow> Inr s))
        | None \<Rightarrow> Inr s))"

definition handle_SEND :: "Packet \<Rightarrow> SocketAddress \<Rightarrow> Server \<Rightarrow> Server res" where
  "handle_SEND message a s =
     (case GetUserNameByAddressAndIP a (sessionManager s) of
        Some username \<Rightarrow>
          (case GetProfileByName username (profileManager s) of
             Some profile \<Rightarrow>
               res_fold (\<lambda>follower s.
                 res_bind (packet_text message) (\<lambda>b.
                   Inr (s\<lparr>notificationQueue := notificationQueue s @ [PendingNotification_new username b follower]\<rparr>)))
                 (GetFollowers profile (profileManager s)) s
           | None \<Rightarrow> Inr s)
      | None \<Rightarrow> Inr s)"

text \<open>The response to a request for user information; the line that sends it is commented out.\<close>

definition user_info_text :: "nat \<Rightarrow> string list \<Rightarrow> ProfileManager \<Rightarrow> string" where
  "user_info_text profile users pm =
     [CHR 0x0A] @ ''Username: '' @ GetHandle profile pm @
     [CHR 0x0A] @ ''Followers: '' @ show_nat (length (GetFollowers profile pm)) @
     (if length users > 0
      then [CHR 0x0A] @ ''Connected users: '' @ [CHR 0x0A] @ concat (map (\<lambda>u. u @ '','') users) @ [CHR 0x0A]
      else [CHR 0x0A] @ ''No users connected.'' @ [CHR 0x0A])"

definition user_info_response :: "nat \<Rightarrow> Server \<Rightarrow> string res" where
  "user_info_response profile s =
     res_bind (GetConnectedUsers (Some profile) (profileManager s) (sessionManager s)) (\<lambda>users.
       Inr (user_info_text profile users (profileManager s)))"

definition handle_USER_INFO :: "SocketAddress \<Rightarrow> Server \<Rightarrow> Server res" where
  "handle_USER_INFO a s =
     (case GetUserNameByAddressAndIP a (sessionManager s) of
        Some username \<Rightarrow>
          (case GetProfileByName username (profileManager s) of
             Some profile \<Rightarrow> res_bind (user_info_response profile s) (\<lambda>response. Inr s)
           | None \<Rightarrow> Inr s)
      | None \<Rightarrow> Inr s)"

definition handle_CONFIRM :: "Os \<Rightarrow> Packet \<Rightarrow> Server \<Rightarrow> Server res" where
  "handle_CONFIRM os message s =
     res_bind (ConfirmMessage os (seqn message) (replicaManager s) s)
       (\<lambda>(rm, s'). Inr (s'\<lparr>replicaManager := rm\<rparr>))"

definition MessageHandler :: "Os \<Rightarrow> Packet \<Rightarrow> SocketAddress \<Rightarrow> Server \<Rightarrow> Server res" where
  "MessageHandler os message a s =
     (if ptype message = PACKET_CONNECT_CMD then handle_CONNECT os message a s
      else if ptype message = PACKET_DISCONNECT_CMD then handle_DISCONNECT message a s
      else if ptype message = PACKET_FOLLOW_CMD then handle_FOLLOW message a s
      else if ptype message = PACKET_SEND_CMD then handle_SEND message a s
      else if ptype message = PACKET_REQUEST_USER_INFO then handle_USER_INFO a s
      else if ptype message = PACKET_CONFIRM_STATE_CHANGE then handle_CONFIRM os message s
      else res_bind (TypeToStr (ptype message)) (\<lambda>_. Inr s))"

section \<open>The two loops\<close>

text \<open>A round of \<open>Listen\<close>, with the buffer as the previous round left it.\<close>

definition Listen_round ::
  "Os \<Rightarrow> (sockaddr_in \<times> u8 list) option \<Rightarrow> u8 list \<times> Server \<Rightarrow> u8 list \<times> Server" where
  "Listen_round os incoming bs =
     (let (buffer, s) = bs in
      if isListening s then
        (let (r, buffer', incomingAddress) = Receive os incoming buffer \<lparr>address = [], port = 0\<rparr>
         in if r > 0
            then (buffer', s\<lparr>messageHandlerThreads :=
                    messageHandlerThreads s @ [(packet_of_bytes buffer', incomingAddress)]\<rparr>)
            else (buffer', s))
      else (buffer, s))"

text \<open>A round of \<open>PendingNotificationWorker\<close>.\<close>

definition notify :: "Os \<Rightarrow> PendingNotification \<Rightarrow> SocketAddress \<Rightarrow> Server \<Rightarrow> Server res" where
  "notify os n a s =
     (let s1 = IncrementSeqn s in
      res_bind (MakeNotification (os_time os) (lastSeqn s1) (pn_body n) (senderUsername n))
        (\<lambda>p. Reply os a p s1))"

definition Worker_round :: "Os \<Rightarrow> Server \<Rightarrow> Server res" where
  "Worker_round os s =
     (case notificationQueue s of
        [] \<Rightarrow> Inr s
      | n # ns \<Rightarrow>
          (let s1 = s\<lparr>notificationQueue := ns\<rparr> in
           res_bind (live_sockets (GetSession (recipient n) (profileManager s1)) (sessionManager s1)) (\<lambda>ss.
             if length ss > 0 then res_fold (notify os n) ss s1
             else Inr (s1\<lparr>notificationQueue := notificationQueue s1 @ [n]\<rparr>))))"

end
