(* ===== verification/Server_Safety.thy ===== *)
theory Server_Safety
  imports Server
begin

text \<open>
  The server's invariant.  \<open>store_inv\<close> ties the profiles to the sessions: handles are unique, the
  session pointer of a profile points to the session of its own handle, and every session belongs
  to a profile.  The message handler and the worker preserve it; on a server that was started
  without a profile file every session pointer that is read has been written before, so that no
  well-formed packet makes a handler fail.
\<close>

section \<open>The invariant of the store\<close>

definition session_link :: "ProfileManager \<Rightarrow> SessionManager \<Rightarrow> bool" where
  "session_link pm sm \<longleftrightarrow> (\<forall>p < length (profileHeap pm). \<forall>q. GetSession p pm = SessionAt q \<longrightarrow>
     q < length (sessionHeap sm) \<and> userHandle (sessionHeap sm ! q) = GetHandle p pm)"

definition users_known :: "ProfileManager \<Rightarrow> SessionManager \<Rightarrow> bool" where
  "users_known pm sm \<longleftrightarrow> (\<forall>q < length (sessionHeap sm). \<exists>p < length (profileHeap pm).
     GetHandle p pm = userHandle (sessionHeap sm ! q))"

definition store_inv :: "ProfileManager \<Rightarrow> SessionManager \<Rightarrow> bool" where
  "store_inv pm sm \<longleftrightarrow> profile_inv pm \<and> handles_unique pm \<and> session_inv sm \<and> session_link pm sm \<and> users_known pm sm"

definition sessions_known :: "ProfileManager \<Rightarrow> bool" where
  "sessions_known pm \<longleftrightarrow> (\<forall>p < length (profileHeap pm). GetSession p pm \<noteq> Indeterminate)"

text \<open>The part of CONNECT that works on the two managers.\<close>

definition find_or_create :: "string \<Rightarrow> ProfileManager \<Rightarrow> nat \<times> ProfileManager" where
  "find_or_create u pm = (case GetProfileByName u pm of Some p \<Rightarrow> (p, pm) | None \<Rightarrow> NewProfile u pm)"

definition connect_store ::
  "string \<Rightarrow> SocketAddress \<Rightarrow> ProfileManager \<Rightarrow> SessionManager
    \<Rightarrow> nat \<times> nat option \<times> ProfileManager \<times> SessionManager" where
  "connect_store u a pm sm =
     (let (p, pm1) = find_or_create u pm; (ses, sm1) = StartSession (GetHandle p pm1) a sm
      in (p, ses, (case ses of Some q \<Rightarrow> SetSession p (SessionAt q) pm1 | None \<Rightarrow> pm1), sm1))"

lemma NewProfile_heap:
  assumes "profile_inv pm" and "NewProfile u pm = (p, pm')"
  shows "p = length (profileHeap pm)" "length (profileHeap pm') = Suc p"
    "GetHandle p pm' = u" "GetSession p pm' = Indeterminate" "GetFollowers p pm' = []"
    "q < p \<Longrightarrow> GetHandle q pm' = GetHandle q pm" "q < p \<Longrightarrow> GetSession q pm' = GetSession q pm"
    "q < p \<Longrightarrow> GetFollowers q pm' = GetFollowers q pm"
proof -
  have "p = length (profileHeap pm)" "profileHeap pm' = profileHeap pm @ [Profile2 u]"
    using assms(2) by (auto simp: NewProfile_def push_profile_def Let_def)
  then show "p = length (profileHeap pm)" "length (profileHeap pm') = Suc p"
    "GetHandle p pm' = u" "GetSession p pm' = Indeterminate" "GetFollowers p pm' = []"
    "q < p \<Longrightarrow> GetHandle q pm' = GetHandle q pm" "q < p \<Longrightarrow> GetSession q pm' = GetSession q pm"
    "q < p \<Longrightarrow> GetFollowers q pm' = GetFollowers q pm"
    by (auto simp: GetHandle_def GetSession_def GetFollowers_def Profile2_def nth_append)
qed

lemma handles_unique_New:
  assumes "profile_inv pm" and "handles_unique pm" and "GetProfileByName u pm = None"
    and "NewProfile u pm = (p, pm')"
  shows "handles_unique pm'"
proof -
  have "profile_inv pm'" using dir.create_members [OF assms(1,4)] by simp
  then show ?thesis
    using dir.create_unique [OF assms(1,3,4)] assms(1,2) by (simp add: handles_unique_names)
qed

text \<open>Looking up or creating keeps the store and gives a profile with the user's handle.\<close>

lemma find_or_create_store:
  assumes inv: "store_inv pm sm" and fc: "find_or_create u pm = (p, pm')"
  shows "store_inv pm' sm" "p < length (profileHeap pm')" "GetHandle p pm' = u"
    "length (profileHeap pm) \<le> length (profileHeap pm')"
    "\<And>q. q < length (profileHeap pm') \<Longrightarrow> q \<noteq> p \<Longrightarrow> q < length (profileHeap pm) \<and> GetSession q pm' = GetSession q pm"
    "\<And>q. q < length (profileHeap pm) \<Longrightarrow> GetHandle q pm' = GetHandle q pm \<and> GetFollowers q pm' = GetFollowers q pm"
proof -
  have pi: "profile_inv pm" and hu: "handles_unique pm" using inv by (auto simp: store_inv_def)
  have "store_inv pm' sm \<and> p < length (profileHeap pm') \<and> GetHandle p pm' = u \<and>
    length (profileHeap pm) \<le> length (profileHeap pm') \<and>
    (\<forall>q. q < length (profileHeap pm') \<longrightarrow> q \<noteq> p \<longrightarrow> q < length (profileHeap pm) \<and> GetSession q pm' = GetSession q pm) \<and>
    (\<forall>q. q < length (profileHeap pm) \<longrightarrow> GetHandle q pm' = GetHandle q pm \<and> GetFollowers q pm' = GetFollowers q pm)"
  proof (cases "GetProfileByName u pm")
    case None
    then have n: "NewProfile u pm = (p, pm')" using fc by (simp add: find_or_create_def)
    note h = NewProfile_heap [OF pi n]
    have "profile_inv pm'" using dir.create_members [OF pi n] by simp
    moreover have "handles_unique pm'" by (rule handles_unique_New [OF pi hu None n])
    moreover have "session_link pm' sm" "users_known pm' sm"
      using inv h by (auto simp: store_inv_def session_link_def users_known_def less_Suc_eq) (metis less_SucI)
    ultimately show ?thesis using inv h by (auto simp: store_inv_def less_Suc_eq)
  next
    case (Some r)
    then show ?thesis using fc inv GetProfileByName_Some [OF pi Some] by (auto simp: find_or_create_def)
  qed
  then show "store_inv pm' sm" "p < length (profileHeap pm')" "GetHandle p pm' = u"
    "length (profileHeap pm) \<le> length (profileHeap pm')"
    "\<And>q. q < length (profileHeap pm') \<Longrightarrow> q \<noteq> p \<Longrightarrow> q < length (profileHeap pm) \<and> GetSession q pm' = GetSession q pm"
    "\<And>q. q < length (profileHeap pm) \<Longrightarrow> GetHandle q pm' = GetHandle q pm \<and> GetFollowers q pm' = GetFollowers q pm"
    by blast+
qed

text \<open>A session started for the handle of a profile belongs to a profile, like all the others.\<close>

lemma StartSession_known:
  assumes si: "session_inv sm" and uk: "users_known pm sm" and p: "p < length (profileHeap pm)"
    and st: "StartSession (GetHandle p pm) a sm = (ses, sm')"
  shows "session_inv sm'" "users_known pm sm'"
    "ses = Some q \<Longrightarrow> q < length (sessionHeap sm') \<and> userHandle (sessionHeap sm' ! q) = GetHandle p pm"
proof -
  show si': "session_inv sm'" using StartSession_inv [OF si, of "GetHandle p pm" a] st by simp
  note heap = StartSession_heap [OF si, where h = "GetHandle p pm" and a = a, unfolded st snd_conv]
  show "q < length (sessionHeap sm') \<and> userHandle (sessionHeap sm' ! q) = GetHandle p pm" if "ses = Some q" for q
    using StartSession_ptr(1) [OF si, of "GetHandle p pm" a q sm'] st that session_invD(2,3) [OF si'] by auto
  show "users_known pm sm'" unfolding users_known_def
  proof (intro allI impI)
    fix r assume r: "r < length (sessionHeap sm')"
    show "\<exists>p' < length (profileHeap pm). GetHandle p' pm = userHandle (sessionHeap sm' ! r)"
    proof (cases "r < length (sessionHeap sm)")
      case True
      then show ?thesis using uk heap(2) by (auto simp: users_known_def)
    next
      case False
      have "userHandle (sessionHeap sm' ! r) = GetHandle p pm"
        using st r False by (auto simp: StartSession_def Let_def nth_append less_Suc_eq split: option.splits if_splits)
      then show ?thesis using p by auto
    qed
  qed
qed

lemma StartSession_store:
  assumes inv: "store_inv pm sm" and p: "p < length (profileHeap pm)"
    and st: "StartSession (GetHandle p pm) a sm = (ses, sm')"
  shows "store_inv pm sm'"
    "ses = Some q \<Longrightarrow> q < length (sessionHeap sm') \<and> userHandle (sessionHeap sm' ! q) = GetHandle p pm"
proof -
  have si: "session_inv sm" and uk: "users_known pm sm" using inv by (auto simp: store_inv_def)
  note k = StartSession_known [OF si uk p st]
  note heap = StartSession_heap [OF si, where h = "GetHandle p pm" and a = a, unfolded st snd_conv]
  have "session_link pm sm'" using inv heap by (auto simp: store_inv_def session_link_def)
  then show "store_inv pm sm'" using inv k by (simp add: store_inv_def)
  show "ses = Some q \<Longrightarrow> q < length (sessionHeap sm') \<and> userHandle (sessionHeap sm' ! q) = GetHandle p pm" by (rule k(3))
qed

lemma SetSession_store:
  assumes inv: "store_inv pm sm" and p: "p < length (profileHeap pm)"
    and q: "q < length (sessionHeap sm)" "userHandle (sessionHeap sm ! q) = GetHandle p pm"
  shows "store_inv (SetSession p (SessionAt q) pm) sm"
  using assms SetSession_inv
  by (auto simp: store_inv_def session_link_def users_known_def SetSession_heap)

lemma connect_store_inv:
  assumes "store_inv pm sm" and "connect_store u a pm sm = (p, ses, pm', sm')"
  shows "store_inv pm' sm'" "p < length (profileHeap pm')" "GetHandle p pm' = u"
    "length (profileHeap pm) \<le> length (profileHeap pm')"
    "\<And>q. q < length (profileHeap pm') \<Longrightarrow> q \<noteq> p \<Longrightarrow> q < length (profileHeap pm) \<and> GetSession q pm' = GetSession q pm"
    "ses = Some q \<Longrightarrow> GetSession p pm' = SessionAt q"
proof -
  obtain pm1 where fc: "find_or_create u pm = (p, pm1)"
    and st: "StartSession (GetHandle p pm1) a sm = (ses, sm')"
    and pm': "pm' = (case ses of Some q \<Rightarrow> SetSession p (SessionAt q) pm1 | None \<Rightarrow> pm1)"
    using assms(2) by (auto simp: connect_store_def Let_def split: prod.splits)
  note f = find_or_create_store [OF assms(1) fc]
  note s = StartSession_store [OF f(1,2) st]
  show "store_inv pm' sm'" using s SetSession_store [OF s(1) f(2)] by (auto simp: pm' split: option.split)
  show "p < length (profileHeap pm')" "GetHandle p pm' = u" "length (profileHeap pm) \<le> length (profileHeap pm')"
    using f by (auto simp: pm' SetSession_heap split: option.split)
  show "\<And>q. q < length (profileHeap pm') \<Longrightarrow> q \<noteq> p \<Longrightarrow> q < length (profileHeap pm) \<and> GetSession q pm' = GetSession q pm"
    using f by (auto simp: pm' SetSession_heap split: option.splits)
  show "ses = Some q \<Longrightarrow> GetSession p pm' = SessionAt q" using f(2) by (simp add: pm' SetSession_heap)
qed

section \<open>Reading the sessions of other users\<close>

definition user_sockets :: "nat \<Rightarrow> ProfileManager \<Rightarrow> SessionManager \<Rightarrow> SocketAddress list" where
  "user_sockets p pm sm = (case GetSession p pm of SessionAt q \<Rightarrow> sockets (sessionHeap sm ! q) | _ \<Rightarrow> [])"

lemma live_sockets_known:
  "GetSession p pm \<noteq> Indeterminate \<Longrightarrow> live_sockets (GetSession p pm) sm = Inr (user_sockets p pm sm)"
  by (cases "GetSession p pm") (auto simp: live_sockets_def user_sockets_def)

lemma GetConnectedUsers_known:
  assumes "\<forall>p \<in> set (profiles pm). p \<noteq> e \<longrightarrow> GetSession p pm \<noteq> Indeterminate"
  shows "GetConnectedUsers (Some e) pm sm =
    Inr (map (\<lambda>p. GetHandle p pm) (filter (\<lambda>p. p \<noteq> e \<and> user_sockets p pm sm \<noteq> []) (profiles pm)))"
proof -
  have "res_fold (\<lambda>user temp. if Some e \<noteq> None \<and> Some user \<noteq> Some e then
        res_bind (live_sockets (GetSession user pm) sm)
          (\<lambda>ss. if ss \<noteq> [] then Inr (temp @ [GetHandle user pm]) else Inr temp) else Inr temp) ps acc =
      Inr (acc @ map (\<lambda>p. GetHandle p pm) (filter (\<lambda>p. p \<noteq> e \<and> user_sockets p pm sm \<noteq> []) ps))"
    if "\<forall>p \<in> set ps. p \<noteq> e \<longrightarrow> GetSession p pm \<noteq> Indeterminate" for ps acc
    using that by (induction ps arbitrary: acc) (auto simp: live_sockets_known)
  from this [OF assms, of "[]"] show ?thesis by (simp add: GetConnectedUsers_def)
qed

lemma GetConnectedUsers_unknown:
  assumes "q \<in> set (profiles pm)" and "q \<noteq> e" and "GetSession q pm = Indeterminate"
  shows "GetConnectedUsers (Some e) pm sm = Inl UninitialisedRead"
proof -
  have "res_fold (\<lambda>user temp. if Some e \<noteq> None \<and> Some user \<noteq> Some e then
        res_bind (live_sockets (GetSession user pm) sm)
          (\<lambda>ss. if ss \<noteq> [] then Inr (temp @ [GetHandle user pm]) else Inr temp) else Inr temp) ps acc =
      Inl UninitialisedRead" if "q \<in> set ps" for ps acc
    using that assms(2,3)
    by (induction ps arbitrary: acc) (auto simp: live_sockets_def split: session_ref.split)
  from this [OF assms(1)] show ?thesis by (simp add: GetConnectedUsers_def)
qed

lemma connect_refused:
  assumes "store_inv pm sm" and "connect_store u a pm sm = (p, None, pm', sm')"
  shows "pm' = pm" "sm' = sm" "GetProfileByName u pm = Some p"
proof -
  obtain pm1 where fc: "find_or_create u pm = (p, pm1)" and pm': "pm' = pm1"
    and st: "StartSession (GetHandle p pm1) a sm = (None, sm')"
    using assms(2) by (auto simp: connect_store_def Let_def split: prod.splits option.splits)
  have u: "GetHandle p pm1 = u" by (rule find_or_create_store(3) [OF assms(1) fc])
  obtain q where q: "map_find u (sessions sm) = Some q" and "sm' = sm"
    using st u by (auto simp: StartSession_def Let_def split: option.splits if_splits)
  then have "q < length (sessionHeap sm)" "userHandle (sessionHeap sm ! q) = u"
    using assms(1) session_invD(2,3) by (auto simp: store_inv_def)
  then have "GetProfileByName u pm \<noteq> None"
    using assms(1) GetProfileByName_None by (fastforce simp: store_inv_def users_known_def)
  then show "pm' = pm" "sm' = sm" "GetProfileByName u pm = Some p"
    using fc pm' \<open>sm' = sm\<close> by (auto simp: find_or_create_def)
qed

lemma connect_store_known:
  assumes "store_inv pm sm" and "sessions_known pm" and c: "connect_store u a pm sm = (p, ses, pm', sm')"
  shows "sessions_known pm'"
proof (cases ses)
  case None
  then show ?thesis using connect_refused(1) [OF assms(1)] c assms(2) by metis
next
  case (Some q)
  note i = connect_store_inv [OF assms(1) c]
  show ?thesis unfolding sessions_known_def
  proof (intro allI impI)
    fix r assume "r < length (profileHeap pm')"
    then show "GetSession r pm' \<noteq> Indeterminate"
      using i(5) [of r] i(6) [OF Some] assms(2) by (cases "r = p") (auto simp: sessions_known_def)
  qed
qed

lemma GetUserName_session:
  assumes "session_inv sm" and "GetUserNameByAddressAndIP a sm = Some u"
  shows "\<exists>q < length (sessionHeap sm). userHandle (sessionHeap sm ! q) = u \<and> map_find u (sessions sm) = Some q"
proof -
  obtain k q where "(k, q) \<in> set (sessions sm)" "u = userHandle (sessionHeap sm ! q)"
    using assms(2) by (auto simp: GetUserNameByAddressAndIP_def find_Some_iff in_set_conv_nth) metis
  moreover from this(1) have "map_find k (sessions sm) = Some q"
    using std.entries_find [OF session_invD(1) [OF assms(1)]] by auto
  ultimately show ?thesis using session_invD(2,3) [OF assms(1)] by metis
qed

lemma GetUserName_profile:
  assumes "store_inv pm sm" and "GetUserNameByAddressAndIP a sm = Some u"
  shows "\<exists>p < length (profileHeap pm). GetProfileByName u pm = Some p \<and> GetHandle p pm = u"
proof -
  have pi: "profile_inv pm" "session_inv sm" using assms(1) by (auto simp: store_inv_def)
  from GetUserName_session [OF pi(2) assms(2)] assms(1) obtain p where
    "p < length (profileHeap pm)" "GetHandle p pm = u" by (auto simp: store_inv_def users_known_def)
  then obtain r where "GetProfileByName u pm = Some r" using GetProfileByName_None [OF pi(1)] by fastforce
  then show ?thesis using GetProfileByName_Some [OF pi(1)] by blast
qed

lemma EndSession_store: "store_inv pm sm \<Longrightarrow> store_inv pm (snd (EndSession h a sm))"
  using EndSession_inv by (auto simp: store_inv_def session_link_def users_known_def)

lemma AddFollower_answer:
  "fst (AddFollower t u d pm) =
    (case GetProfileByName u pm of None \<Rightarrow> None | Some f \<Rightarrow> Some (if f \<in> set (GetFollowers t pm) then 0 else 1))"
  by (auto simp: AddFollower_def Let_def split: option.split)

lemma AddFollower_store:
  "store_inv pm sm \<Longrightarrow> store_inv (snd (AddFollower t u d pm)) sm"
  using AddFollower_inv AddFollower_unique
  by (auto simp: store_inv_def session_link_def users_known_def AddFollower_heap)

section \<open>Replication inside a handler\<close>

definition has_primary :: "ReplicaManager \<Rightarrow> bool" where
  "has_primary rm \<longleftrightarrow> IsPrimary rm \<or> list_ex peer_primary (peers rm)"

definition same_host :: "ReplicaManager \<Rightarrow> ReplicaManager \<Rightarrow> bool" where
  "same_host rm rm' \<longleftrightarrow> thisPeer rm' = thisPeer rm \<and> peers rm' = peers rm"

lemma ConfirmMessage_cases:
  assumes "replica_inv rm"
  shows "(\<exists>rm' out. ConfirmMessage os k rm s = Inr (rm', s\<lparr>sent := sent s @ out\<rparr>) \<and> replica_inv rm' \<and> same_host rm rm')
    \<or> \<not> has_primary rm \<and> ConfirmMessage os k rm s = Inl (InvalidArgument ''No primary peer found'')"
proof (cases "confirmationBuffer rm")
  case (Some b)
  note e = ConfirmMessage_primary [OF assms Some, of os k s]
  show ?thesis using e replica_inv_Confirm [OF assms e] by (fastforce simp: same_host_def)
next
  case None
  then have np: "\<not> IsPrimary rm" using assms by (simp add: replica_inv_def)
  show ?thesis
  proof (cases "List.find peer_primary (peers rm)")
    case None
    then have "ConfirmMessage os k rm s = Inl (InvalidArgument ''No primary peer found'')"
      using np by (simp add: ConfirmMessage_def GetPrimaryReplica_def)
    moreover have "\<not> has_primary rm" using None np by (auto simp: has_primary_def find_None_iff list_ex_iff)
    ultimately show ?thesis by simp
  next
    case (Some p)
    let ?out = "datagrams os (srv_socket s) [(GetSocketAddress p, MakeConfirmStateChangeMessage (os_time os) k)]"
    obtain r where "socket_send os (GetSocketAddress p) (MakeConfirmStateChangeMessage (os_time os) k) s =
        Inr (r, s\<lparr>sent := sent s @ ?out\<rparr>)"
      using socket_send_eq [of "MakeConfirmStateChangeMessage (os_time os) k" os "GetSocketAddress p" s]
      by (fastforce simp: MakeConfirmStateChangeMessage_def)
    with Some np have "ConfirmMessage os k rm s = Inr (rm, s\<lparr>sent := sent s @ ?out\<rparr>)"
      by (simp add: ConfirmMessage_def GetPrimaryReplica_def)
    moreover have "same_host rm rm" by (simp add: same_host_def)
    ultimately show ?thesis using assms by blast
  qed
qed

definition replicate_state :: "Os \<Rightarrow> Packet \<Rightarrow> SocketAddress \<Rightarrow> Server \<Rightarrow> Server res" where
  "replicate_state os message a s =
     res_bind
       (if IsPrimary (replicaManager s)
        then BroadcastToSecondaries os message a (replicaManager s) s
        else ConfirmMessage os (seqn message) (replicaManager s) s)
       (\<lambda>(rm, s2). Inr (s2\<lparr>replicaManager := rm\<rparr>))"

lemma replicate_state_cases:
  assumes "replica_inv (replicaManager s)" and "ptype m = PACKET_CONNECT_CMD"
  shows "(\<exists>rm' n out. replicate_state os m a s = Inr (s\<lparr>lastSeqn := n, sent := sent s @ out, replicaManager := rm'\<rparr>) \<and>
      replica_inv rm' \<and> same_host (replicaManager s) rm')
    \<or> \<not> has_primary (replicaManager s) \<and> replicate_state os m a s = Inl (InvalidArgument ''No primary peer found'')"
proof (cases "IsPrimary (replicaManager s)")
  case True
  then obtain b where b: "confirmationBuffer (replicaManager s) = Some b"
    using assms(1) by (auto simp: replica_inv_def split: option.splits)
  note e = BroadcastToSecondaries_eq [OF assms(2) b, of os a s]
  show ?thesis using True e replica_inv_Broadcast [OF assms True e]
    by (fastforce simp: replicate_state_def same_host_def)
next
  case False
  from ConfirmMessage_cases [OF assms(1), of os "seqn m" s] show ?thesis
  proof
    assume "\<exists>rm' out. ConfirmMessage os (seqn m) (replicaManager s) s = Inr (rm', s\<lparr>sent := sent s @ out\<rparr>) \<and>
      replica_inv rm' \<and> same_host (replicaManager s) rm'"
    then obtain rm' out where c: "ConfirmMessage os (seqn m) (replicaManager s) s = Inr (rm', s\<lparr>sent := sent s @ out\<rparr>)"
      "replica_inv rm'" "same_host (replicaManager s) rm'" by blast
    have "replicate_state os m a s =
        Inr (s\<lparr>lastSeqn := lastSeqn s, sent := sent s @ out, replicaManager := rm'\<rparr>)"
      using c(1) False by (simp add: replicate_state_def)
    with c(2,3) show ?thesis by blast
  qed (auto simp: replicate_state_def False)
qed

lemma handle_CONNECT_eq:
  "handle_CONNECT os m a s =
    res_bind (packet_text m) (\<lambda>u.
      (case connect_store u a (profileManager s) (sessionManager s) of (p, ses, pm, sm) \<Rightarrow>
         res_bind (if ses = None then Inr [] else GetConnectedUsers (Some p) pm sm) (\<lambda>_.
           replicate_state os m a (s\<lparr>profileManager := pm, sessionManager := sm\<rparr>))))"
  unfolding handle_CONNECT_def replicate_state_def connect_store_def find_or_create_def
  by (intro arg_cong [of _ _ "res_bind (packet_text m)"] ext)
    (auto simp: Let_def res_bind_assoc split: prod.splits option.splits)

section \<open>The invariant of the server\<close>

definition server_inv :: "Server \<Rightarrow> bool" where
  "server_inv s \<longleftrightarrow> store_inv (profileManager s) (sessionManager s) \<and> replica_inv (replicaManager s) \<and>
     (\<forall>n \<in> set (notificationQueue s). recipient n < length (profileHeap (profileManager s)))"

text \<open>What a server that started without a profile file has in addition.\<close>

definition server_ok :: "Server \<Rightarrow> bool" where
  "server_ok s \<longleftrightarrow> server_inv s \<and> sessions_known (profileManager s) \<and> has_primary (replicaManager s)"

definition packet_ok :: "Packet \<Rightarrow> bool" where
  "packet_ok m \<longleftrightarrow> NUL \<in> set (payload m) \<and> (nameable (ptype m) \<or> ptype m = PACKET_REQUEST_USER_INFO)"

lemma packet_ok_text: "packet_ok m \<Longrightarrow> \<exists>u. packet_text m = Inr u"
  by (simp add: packet_ok_def packet_text_def string_of_array_def)

lemma same_host_primary [simp]: "same_host rm rm' \<Longrightarrow> has_primary rm' = has_primary rm"
  "same_host rm rm' \<Longrightarrow> IsPrimary rm' = IsPrimary rm"
  by (auto simp: same_host_def has_primary_def IsPrimary_def)

lemma handle_CONNECT_outcome:
  assumes inv: "server_inv s" and t: "ptype m = PACKET_CONNECT_CMD" and u: "packet_text m = Inr u"
  obtains (ok) s' where "handle_CONNECT os m a s = Inr s'" "server_inv s'" "server_ok s \<longrightarrow> server_ok s'"
    | (fail) e where "handle_CONNECT os m a s = Inl e" "\<not> server_ok s"
proof -
  obtain p ses pm sm where c: "connect_store u a (profileManager s) (sessionManager s) = (p, ses, pm, sm)"
    by (metis prod_cases4)
  have si: "store_inv (profileManager s) (sessionManager s)" using inv by (simp add: server_inv_def)
  note i = connect_store_inv [OF si c]
  let ?s = "s\<lparr>profileManager := pm, sessionManager := sm\<rparr>"
  have eq: "handle_CONNECT os m a s =
      res_bind (if ses = None then Inr [] else GetConnectedUsers (Some p) pm sm) (\<lambda>_. replicate_state os m a ?s)"
    using u c by (simp add: handle_CONNECT_eq)
  have inv': "server_inv ?s" using i(1,4) inv by (fastforce simp: server_inv_def)
  have known: "server_ok s \<Longrightarrow> server_ok ?s"
    using connect_store_known [OF si _ c] inv' by (simp add: server_ok_def)
  show ?thesis
  proof (cases "if ses = None then Inr [] else GetConnectedUsers (Some p) pm sm")
    case (Inl e)
    have "\<not> server_ok s"
    proof
      assume "server_ok s"
      then have "\<forall>q \<in> set (profiles pm). q \<noteq> p \<longrightarrow> GetSession q pm \<noteq> Indeterminate"
        using known i(1) by (auto simp: server_ok_def sessions_known_def store_inv_def profile_inv_def)
      from GetConnectedUsers_known [OF this] Inl show False by (auto split: if_splits)
    qed
    with Inl eq fail show ?thesis by simp
  next
    case (Inr us)
    have ri: "replica_inv (replicaManager ?s)" using inv by (simp add: server_inv_def)
    from replicate_state_cases [OF ri t, of os a] show ?thesis
    proof (elim disjE exE conjE)
      fix rm' n out
      let ?s' = "?s\<lparr>lastSeqn := n, sent := sent ?s @ out, replicaManager := rm'\<rparr>"
      assume r: "replicate_state os m a ?s = Inr ?s'" "replica_inv rm'" "same_host (replicaManager ?s) rm'"
      have "server_inv ?s'" "server_ok s \<longrightarrow> server_ok ?s'"
        using inv' known r(2,3) by (auto simp: server_inv_def server_ok_def)
      with ok r(1) eq Inr show ?thesis by simp
    next
      assume "\<not> has_primary (replicaManager ?s)"
        "replicate_state os m a ?s = Inl (InvalidArgument ''No primary peer found'')"
      with fail eq Inr show ?thesis by (auto simp: server_ok_def)
    qed
  qed
qed

lemma handle_DISCONNECT_outcome:
  assumes "server_inv s" and "packet_text m = Inr u"
  shows "\<exists>s'. handle_DISCONNECT m a s = Inr s' \<and> server_inv s' \<and> (server_ok s \<longrightarrow> server_ok s')"
proof (cases "GetProfileByName u (profileManager s)")
  case (Some p)
  let ?sm = "snd (EndSession (GetHandle p (profileManager s)) a (sessionManager s))"
  have "handle_DISCONNECT m a s = Inr (s\<lparr>sessionManager := ?sm\<rparr>)"
    using assms(2) Some by (simp add: handle_DISCONNECT_def split_def Let_def)
  moreover have "server_inv (s\<lparr>sessionManager := ?sm\<rparr>)"
    using assms(1) EndSession_store by (simp add: server_inv_def)
  ultimately show ?thesis by (simp add: server_ok_def)
qed (use assms in \<open>simp add: handle_DISCONNECT_def\<close>)

lemma handle_FOLLOW_outcome:
  assumes "server_inv s" and "packet_text m = Inr w"
  shows "\<exists>s'. handle_FOLLOW m a s = Inr s' \<and> server_inv s' \<and> (server_ok s \<longrightarrow> server_ok s')"
proof (cases "GetUserNameByAddressAndIP a (sessionManager s)")
  case None
  then show ?thesis using assms by (simp add: handle_FOLLOW_def)
next
  case (Some u)
  have si: "store_inv (profileManager s) (sessionManager s)" using assms(1) by (simp add: server_inv_def)
  then have pi: "profile_inv (profileManager s)" by (simp add: store_inv_def)
  obtain f where f: "GetProfileByName u (profileManager s) = Some f"
    using GetUserName_profile [OF si Some] by blast
  show ?thesis
  proof (cases "w = u \<or> GetProfileByName w (profileManager s) = None")
    case True
    then show ?thesis using assms Some by (auto simp: handle_FOLLOW_def Let_def)
  next
    case False
    then obtain p where p: "GetProfileByName w (profileManager s) = Some p" "w \<noteq> u" by blast
    let ?pm = "snd (AddFollower p u True (profileManager s))"
    obtain r where "fst (AddFollower p u True (profileManager s)) = Some r"
      using f by (simp add: AddFollower_answer)
    then have "handle_FOLLOW m a s = Inr (s\<lparr>profileManager := ?pm\<rparr>)"
      using assms(2) Some p by (simp add: handle_FOLLOW_def split_def Let_def)
    moreover have "server_inv (s\<lparr>profileManager := ?pm\<rparr>)"
      using assms(1) AddFollower_store [OF si] AddFollower_heap(1) [OF pi] by (simp add: server_inv_def)
    moreover have "sessions_known (profileManager s) \<longrightarrow> sessions_known ?pm"
      using AddFollower_heap(1,4) [OF pi] by (simp add: sessions_known_def)
    ultimately show ?thesis by (simp add: server_ok_def)
  qed
qed

lemma handle_FOLLOW_cases:
  assumes "handle_FOLLOW m a s = Inr s'"
  shows "s' = s \<or> (\<exists>p u. s' = s\<lparr>profileManager := snd (AddFollower p u True (profileManager s))\<rparr>)"
  using assms unfolding handle_FOLLOW_def
  by (cases "packet_text m"; cases "GetUserNameByAddressAndIP a (sessionManager s)")
    (auto simp: split_def Let_def split: option.splits if_splits)

lemma handle_SEND_eq:
  assumes "GetUserNameByAddressAndIP a (sessionManager s) = Some u"
    and "GetProfileByName u (profileManager s) = Some p" and "packet_text m = Inr b"
  shows "handle_SEND m a s = Inr (s\<lparr>notificationQueue := notificationQueue s @
    map (PendingNotification_new u b) (GetFollowers p (profileManager s))\<rparr>)"
proof -
  have "res_fold (\<lambda>follower s. res_bind (packet_text m) (\<lambda>b.
      Inr (s\<lparr>notificationQueue := notificationQueue s @ [PendingNotification_new u b follower]\<rparr>))) fs t =
    Inr (t\<lparr>notificationQueue := notificationQueue t @ map (PendingNotification_new u b) fs\<rparr>)" for fs and t :: Server
    using assms(3) by (induction fs arbitrary: t) auto
  then show ?thesis using assms by (simp add: handle_SEND_def)
qed

lemma handle_SEND_outcome:
  assumes "server_inv s" and "packet_text m = Inr b"
  shows "\<exists>s'. handle_SEND m a s = Inr s' \<and> server_inv s' \<and> (server_ok s \<longrightarrow> server_ok s')"
proof (cases "GetUserNameByAddressAndIP a (sessionManager s)")
  case None
  then show ?thesis using assms by (simp add: handle_SEND_def)
next
  case (Some u)
  have si: "store_inv (profileManager s) (sessionManager s)" using assms(1) by (simp add: server_inv_def)
  obtain p where p: "GetProfileByName u (profileManager s) = Some p" "p < length (profileHeap (profileManager s))"
    using GetUserName_profile [OF si Some] by blast
  have "set (GetFollowers p (profileManager s)) \<subseteq> {..<length (profileHeap (profileManager s))}"
    using si p(2) by (simp add: store_inv_def profile_inv_iff profile_ok_def GetFollowers_def)
  then have "server_inv (s\<lparr>notificationQueue := notificationQueue s @
      map (PendingNotification_new u b) (GetFollowers p (profileManager s))\<rparr>)"
    using assms(1) by (auto simp: server_inv_def PendingNotification_new_def)
  then show ?thesis using handle_SEND_eq [OF Some p(1) assms(2)] by (simp add: server_ok_def)
qed

lemma handle_USER_INFO_outcome:
  assumes "server_inv s"
  obtains (ok) "handle_USER_INFO a s = Inr s" | (fail) e where "handle_USER_INFO a s = Inl e" "\<not> server_ok s"
proof (cases "handle_USER_INFO a s")
  case (Inr s')
  then have "s' = s" by (auto simp: handle_USER_INFO_def res_simps split: option.splits)
  with Inr ok show ?thesis by simp
next
  case (Inl e)
  then obtain p where "GetConnectedUsers (Some p) (profileManager s) (sessionManager s) = Inl e"
    by (auto simp: handle_USER_INFO_def user_info_response_def res_simps split: option.splits)
  moreover have "\<forall>q \<in> set (profiles (profileManager s)). q \<noteq> p \<longrightarrow> GetSession q (profileManager s) \<noteq> Indeterminate"
    if "server_ok s"
    using that by (auto simp: server_ok_def server_inv_def sessions_known_def store_inv_def profile_inv_def)
  ultimately have "\<not> server_ok s" using GetConnectedUsers_known by fastforce
  with Inl fail show ?thesis by blast
qed

lemma handle_CONFIRM_outcome:
  assumes inv: "server_inv s"
  obtains (ok) s' where "handle_CONFIRM os m s = Inr s'" "server_inv s'" "server_ok s \<longrightarrow> server_ok s'"
    | (fail) e where "handle_CONFIRM os m s = Inl e" "\<not> server_ok s"
proof -
  have ri: "replica_inv (replicaManager s)" using inv by (simp add: server_inv_def)
  from ConfirmMessage_cases [OF ri, of os "seqn m" s] show ?thesis
  proof (elim disjE exE conjE)
    fix rm' out
    assume r: "ConfirmMessage os (seqn m) (replicaManager s) s = Inr (rm', s\<lparr>sent := sent s @ out\<rparr>)"
      "replica_inv rm'" "same_host (replicaManager s) rm'"
    let ?s = "s\<lparr>sent := sent s @ out, replicaManager := rm'\<rparr>"
    have "handle_CONFIRM os m s = Inr ?s" using r(1) by (simp add: handle_CONFIRM_def)
    moreover have "server_inv ?s" "server_ok s \<longrightarrow> server_ok ?s"
      using inv r(2,3) by (auto simp: server_inv_def server_ok_def)
    ultimately show ?thesis by (rule ok)
  next
    assume "\<not> has_primary (replicaManager s)"
      "ConfirmMessage os (seqn m) (replicaManager s) s = Inl (InvalidArgument ''No primary peer found'')"
    with fail show ?thesis by (auto simp: handle_CONFIRM_def server_ok_def)
  qed
qed

text \<open>One lemma for all cases of the handler: it keeps the invariant, and it can only fail on a
  packet that is not well formed or on a state that is not \<open>server_ok\<close>.\<close>

lemma unreadable_payload:
  assumes "packet_text m = Inl e"
  shows "handle_CONNECT os m a s = Inl e" "handle_DISCONNECT m a s = Inl e" "handle_FOLLOW m a s = Inl e"
    "handle_SEND m a s \<in> {Inr s, Inl e}"
proof -
  have "res_fold (\<lambda>follower s. Inl e) fs s = (if fs = [] then Inr s else Inl e)" for fs :: "nat list"
    by (cases fs) auto
  then show "handle_SEND m a s \<in> {Inr s, Inl e}" using assms by (simp add: handle_SEND_def split: option.split)
qed (use assms in \<open>simp_all add: handle_CONNECT_def handle_DISCONNECT_def handle_FOLLOW_def\<close>)

lemma MessageHandler_outcome:
  assumes inv: "server_inv s"
  obtains (ok) s' where "MessageHandler os m a s = Inr s'" "server_inv s'" "server_ok s \<longrightarrow> server_ok s'"
    | (fail) e where "MessageHandler os m a s = Inl e" "\<not> (server_ok s \<and> packet_ok m)"
proof -
  note sr = that
  have bad: "\<not> packet_ok m" if "packet_text m = Inl e" for e using packet_ok_text [of m] that by auto
  consider (c) "ptype m = PACKET_CONNECT_CMD" | (d) "ptype m = PACKET_DISCONNECT_CMD"
    | (f) "ptype m = PACKET_FOLLOW_CMD" | (s) "ptype m = PACKET_SEND_CMD"
    | (i) "ptype m = PACKET_REQUEST_USER_INFO" | (k) "ptype m = PACKET_CONFIRM_STATE_CHANGE"
    | (x) "ptype m \<notin> {PACKET_CONNECT_CMD, PACKET_DISCONNECT_CMD, PACKET_FOLLOW_CMD, PACKET_SEND_CMD,
        PACKET_REQUEST_USER_INFO, PACKET_CONFIRM_STATE_CHANGE}" by blast
  then show ?thesis
  proof cases
    case c
    then have "MessageHandler os m a s = handle_CONNECT os m a s" by (simp add: MessageHandler_def)
    then show ?thesis
      using handle_CONNECT_outcome [OF inv c] unreadable_payload(1) bad sr by (metis sum.exhaust)
  next
    case d
    then have "MessageHandler os m a s = handle_DISCONNECT m a s" by (simp add: MessageHandler_def)
    then show ?thesis
      using handle_DISCONNECT_outcome [OF inv] unreadable_payload(2) bad sr by (metis sum.exhaust)
  next
    case f
    then have "MessageHandler os m a s = handle_FOLLOW m a s" by (simp add: MessageHandler_def)
    then show ?thesis
      using handle_FOLLOW_outcome [OF inv] unreadable_payload(3) bad sr by (metis sum.exhaust)
  next
    case s
    then have h: "MessageHandler os m a s = handle_SEND m a s" by (simp add: MessageHandler_def)
    show ?thesis
    proof (cases "packet_text m")
      case (Inl e)
      then show ?thesis using unreadable_payload(4) [OF Inl, of a s] h bad inv sr by auto
    next
      case (Inr b)
      then show ?thesis using handle_SEND_outcome [OF inv Inr, of a] h sr by metis
    qed
  next
    case i
    then have "MessageHandler os m a s = handle_USER_INFO a s" by (simp add: MessageHandler_def)
    then show ?thesis using handle_USER_INFO_outcome [OF inv] inv sr by metis
  next
    case k
    then have "MessageHandler os m a s = handle_CONFIRM os m s" by (simp add: MessageHandler_def)
    then show ?thesis using handle_CONFIRM_outcome [OF inv] sr by metis
  next
    case x
    then have h: "MessageHandler os m a s = res_bind (TypeToStr (ptype m)) (\<lambda>_. Inr s)" by (simp add: MessageHandler_def)
    show ?thesis
    proof (cases "TypeToStr (ptype m)")
      case (Inl e)
      then have "\<not> packet_ok m" using x by (auto simp: packet_ok_def nameable_def)
      then show ?thesis using Inl h sr by simp
    qed (use h inv sr in simp)
  qed
qed

section \<open>The worker\<close>

lemma notify_eq:
  "notify os n a s =
    res_bind (MakeNotification (os_time os) (lastSeqn s + 1) (pn_body n) (senderUsername n)) (\<lambda>p.
      Inr (s\<lparr>lastSeqn := lastSeqn s + 1, sent := sent s @ datagrams os (srv_socket s) [(a, p)]\<rparr>))"
proof (cases "MakeNotification (os_time os) (lastSeqn s + 1) (pn_body n) (senderUsername n)")
  case (Inl e)
  then show ?thesis by (simp add: notify_def IncrementSeqn_def)
next
  case (Inr p)
  then have "ptype p = PACKET_NOTIFICATION"
    using strcpy_payload_InrD(2) by (fastforce simp: MakeNotification_def Let_def)
  then have "nameable (ptype p)" by simp
  from socket_send_eq [OF this, of os a "IncrementSeqn s"] Inr show ?thesis
    by (auto simp: notify_def Reply_def IncrementSeqn_def)
qed

lemma notify_frame:
  assumes "notify os n a s = Inr s'"
  shows "\<exists>p. s' = s\<lparr>lastSeqn := lastSeqn s + 1, sent := sent s @ datagrams os (srv_socket s) [(a, p)]\<rparr>"
  using assms by (auto simp: notify_eq res_simps)

lemma Worker_round_inv:
  assumes inv: "server_inv s" and w: "Worker_round os s = Inr s'"
  shows "server_inv s'" "server_ok s \<Longrightarrow> server_ok s'"
proof -
  have P: "server_inv s' \<and> (server_ok s \<longrightarrow> server_ok s')"
  proof (cases "notificationQueue s")
    case Nil
    then show ?thesis using inv w by (simp add: Worker_round_def)
  next
    case (Cons n ns)
    let ?s = "s\<lparr>notificationQueue := ns\<rparr>"
    have base: "server_inv ?s \<and> (server_ok s \<longrightarrow> server_ok ?s)"
      using inv Cons by (auto simp: server_inv_def server_ok_def)
    from w Cons consider ss where "res_fold (notify os n) ss ?s = Inr s'"
      | "s' = ?s\<lparr>notificationQueue := ns @ [n]\<rparr>"
      by (auto simp: Worker_round_def Let_def res_simps split: if_splits)
    then show ?thesis
    proof cases
      case 1
      from 1 base show ?thesis
        by (rule res_fold_invariant [where P = "\<lambda>t. server_inv t \<and> (server_ok s \<longrightarrow> server_ok t)"])
          (auto dest!: notify_frame simp: server_inv_def server_ok_def)
    next
      case 2
      then show ?thesis using inv Cons by (auto simp: server_inv_def server_ok_def)
    qed
  qed
  then show "server_inv s'" "server_ok s \<Longrightarrow> server_ok s'" by blast+
qed

section \<open>Runs of the server\<close>

text \<open>
  A run in which handlers are not interleaved: a handler for any packet from any address, a round
  of the worker, or a datagram that arrives.  A server is started without a profile file and, if
  it is a secondary, with a primary among its peers.
\<close>

inductive server_step :: "Server \<Rightarrow> Server \<Rightarrow> bool" where
  step_handle: "MessageHandler os m a s = Inr s' \<Longrightarrow> server_step s s'"
| step_work: "Worker_round os s = Inr s' \<Longrightarrow> server_step s s'"
| step_receive: "Listen_round os incoming (buffer, s) = (buffer', s') \<Longrightarrow> server_step s s'"

definition server_init :: "Server \<Rightarrow> bool" where
  "server_init s \<longleftrightarrow> (\<exists>d w ba bp pl pr. Server_new d None w ba bp pl pr = Some (Inr s)) \<and>
     has_primary (replicaManager s)"

lemma ReplicaManager_new_inv: "ReplicaManager_new ba bp pr pl = Inr rm \<Longrightarrow> replica_inv rm"
  by (cases pr) (auto simp: ReplicaManager_new_def res_simps replica_inv_def IsPrimary_def)

lemma Server_new_fresh:
  "Server_new d None w ba bp pl pr = map_option (\<lambda>r. res_bind r (\<lambda>rm.
     Inr \<lparr>lastSeqn = 0, srv_socket = snd (Bind ba bp (Socket_new d)), sent = [],
        bindAddress = ba, bindPort = bp, socketDescr = None, isListening = True,
        messageHandlerThreads = [], notificationQueue = [],
        profileManager = \<lparr>profiles = [], profileHeap = [], profilesFile = None, writable = w\<rparr>,
        sessionManager = SessionManager_new, replicaManager = rm\<rparr>))
     (Some (ReplicaManager_new ba bp pr pl))"
  by (simp add: Server_new_def ProfileManager_new_def ReadProfilesFromFile_def)

lemma store_inv_empty:
  "store_inv \<lparr>profiles = [], profileHeap = [], profilesFile = f, writable = w\<rparr> SessionManager_new"
  using session_inv_new
  by (simp add: store_inv_def profile_inv_def handles_unique_def session_link_def users_known_def SessionManager_new_def)

lemma server_init_ok: "server_init s \<Longrightarrow> server_ok s"
  using ReplicaManager_new_inv store_inv_empty
  by (auto simp: server_init_def Server_new_fresh res_simps server_ok_def server_inv_def sessions_known_def)

lemma Listen_round_frame:
  "Listen_round os incoming (buffer, s) = (buffer', s') \<Longrightarrow> \<exists>ts. s' = s\<lparr>messageHandlerThreads := ts\<rparr>"
  by (auto simp: Listen_round_def Let_def split: if_splits prod.splits intro: exI [of _ "messageHandlerThreads s"])

lemma server_step_ok:
  assumes "server_ok s" and "server_step s t"
  shows "server_ok t"
proof -
  have inv: "server_inv s" using assms(1) by (simp add: server_ok_def)
  from assms(2) show ?thesis
  proof (cases rule: server_step.cases)
    case (step_handle os m a)
    then show ?thesis using MessageHandler_outcome [OF inv, of os m a] assms(1) by (metis Inl_Inr_False sum.inject(2))
  next
    case (step_work os)
    then show ?thesis using Worker_round_inv(2) [OF inv] assms(1) by blast
  next
    case (step_receive os incoming buffer buffer')
    then show ?thesis using Listen_round_frame assms(1) by (fastforce simp: server_ok_def server_inv_def)
  qed
qed

interpretation run: transition_invariant server_init server_step server_ok
  by unfold_locales (auto intro: server_init_ok server_step_ok)

text \<open>A primary that has just started, for concrete runs.\<close>

definition example_server :: Server where
  "example_server =
     \<lparr>lastSeqn = 0, srv_socket = snd (Bind ''127.0.0.1'' 4000 (Socket_new 3)), sent = [],
      bindAddress = ''127.0.0.1'', bindPort = 4000, socketDescr = None, isListening = True,
      messageHandlerThreads = [], notificationQueue = [],
      profileManager = \<lparr>profiles = [], profileHeap = [], profilesFile = None, writable = True\<rparr>,
      sessionManager = SessionManager_new,
      replicaManager = \<lparr>thisPeer = \<lparr>peer_address = ''127.0.0.1'', peer_port = 4000, peer_primary = True\<rparr>,
        peers = [], confirmationBuffer = Some []\<rparr>\<rparr>"

lemma example_server_init: "server_init example_server"
  unfolding server_init_def
proof (intro conjI exI)
  show "Server_new 3 None True ''127.0.0.1'' 4000 [] True = Some (Inr example_server)"
    by (simp add: Server_new_fresh ReplicaManager_new_def ParsePeersArgument_def Split_def example_server_def)
  show "has_primary (replicaManager example_server)"
    by (simp add: example_server_def has_primary_def IsPrimary_def)
qed

lemma example_connect_ok: "packet_ok example_connect"
  using example_connect_facts(1,2)
  by (auto simp: packet_ok_def packet_text_def string_of_array_def split: if_splits)

section \<open>Properties\<close>

text \<open>
  C6.  Without races a server does not fail: a server that is started without a profile file and that
  is the primary or knows one, and that handles one packet at a time, in any sequence with arriving
  datagrams and worker rounds, ends the handler for any packet with a terminated text and a known
  type from any address normally, and the invariant holds again: unique handles, at most two
  addresses per session, session pointers to the sessions of their own users, valid followers and
  recipients, and a confirmation buffer exactly on the primary.  The conditions matter: after a
  restart with stored profiles, and when handlers interleave, session pointers are read that were
  never set.  \<open>BroadcastToSecondaries\<close> and \<open>ConfirmMessage\<close>, which have no return statement and whose value is not used, are taken to return.
\<close>

theorem server_never_fails:
  assumes "reachable server_init server_step s" and "packet_ok m"
  shows "\<exists>s'. MessageHandler os m a s = Inr s' \<and> server_inv s' \<and> sessions_known (profileManager s')"
proof -
  have ok: "server_ok s" using assms(1) by (rule run.reachable_inv)
  then have "server_inv s" by (simp add: server_ok_def)
  then show ?thesis
    using MessageHandler_outcome [of s os m a] ok assms(2) by (metis server_ok_def)
qed

theorem server_never_fails_witness:
  "\<exists>s'. MessageHandler example_os example_connect example_client example_server = Inr s' \<and> server_inv s' \<and>
    sessions_known (profileManager s')"
  by (rule server_never_fails [OF reach_init [of server_init, OF example_server_init] example_connect_ok])

text \<open>
  Whatever a packet contains, a handler that ends normally keeps the server's invariant.
\<close>

lemma MessageHandler_keeps_inv:
  assumes "server_inv s" and "MessageHandler os m a s = Inr s'"
  shows "server_inv s'"
  using MessageHandler_outcome [OF assms(1), of os m a] assms(2) by (metis Inl_Inr_False sum.inject(2))

end
