(* ===== verification/Server_Behaviour.thy ===== *)
theory Server_Behaviour
  imports Server_Safety
begin

text \<open>
  What the server does for its users: posting, following, delivery by the worker, connecting on a
  primary and on a secondary, and the way from a datagram to a handler.  Two theorems record
  failures: the first connection after a restart with two or more stored profiles reads a session
  pointer that nobody wrote, and a refused connection is replicated and accepted like any other.
\<close>

section \<open>Posting\<close>

lemma handle_SEND_unauthenticated:
  "GetUserNameByAddressAndIP a (sessionManager s) = None \<Longrightarrow> handle_SEND m a s = Inr s"
  by (simp add: handle_SEND_def)

section \<open>The worker\<close>

text \<open>The packets of a notification for each address, and the counter after them.\<close>

lemma notify_all:
  assumes "NUL \<notin> set (pn_body n)" and "NUL \<notin> set (senderUsername n)"
    and "length (pn_body n) + length (senderUsername n) \<le> 508"
  shows "\<exists>ps. res_fold (notify os n) as s = Inr (s\<lparr>lastSeqn := lastSeqn s + of_nat (length as),
      sent := sent s @ datagrams os (srv_socket s) (zip as ps)\<rparr>) \<and> length ps = length as \<and>
    (\<forall>i < length as. ptype (ps ! i) = PACKET_NOTIFICATION \<and> seqn (ps ! i) = lastSeqn s + 2 + of_nat i \<and>
      packet_text (ps ! i) = Inr (notification_text (pn_body n) (senderUsername n)))"
proof (induction as arbitrary: s)
  case Nil
  then show ?case by simp
next
  case (Cons a as)
  let ?t = "notification_text (pn_body n) (senderUsername n)"
  have nf: "NUL \<notin> set ?t" "length ?t < 512"
    using assms by (simp_all add: notification_text_NUL_free notification_text_length)
  obtain p where p: "MakeNotification (os_time os) (lastSeqn s + 1) (pn_body n) (senderUsername n) = Inr p"
    "packet_text p = Inr ?t" "ptype p = PACKET_NOTIFICATION" "seqn p = lastSeqn s + 1 + 1"
    using Make_init [OF nf, of "os_time os" PACKET_NOTIFICATION "lastSeqn s + 1 + 1" "length (pn_body n)"]
    by (auto simp: MakeNotification_def Let_def)
  let ?s = "s\<lparr>lastSeqn := lastSeqn s + 1, sent := sent s @ datagrams os (srv_socket s) [(a, p)]\<rparr>"
  from Cons.IH [of ?s] obtain ps where ps:
    "res_fold (notify os n) as ?s = Inr (?s\<lparr>lastSeqn := lastSeqn ?s + of_nat (length as),
      sent := sent ?s @ datagrams os (srv_socket ?s) (zip as ps)\<rparr>)" "length ps = length as"
    "\<forall>i < length as. ptype (ps ! i) = PACKET_NOTIFICATION \<and> seqn (ps ! i) = lastSeqn ?s + 2 + of_nat i \<and>
      packet_text (ps ! i) = Inr ?t" by blast
  have "res_fold (notify os n) (a # as) s = Inr (s\<lparr>lastSeqn := lastSeqn s + of_nat (length (a # as)),
      sent := sent s @ datagrams os (srv_socket s) (zip (a # as) (p # ps))\<rparr>)"
    using p(1) ps(1) by (simp add: notify_eq add.assoc)
  moreover have "\<forall>i < length (a # as). ptype ((p # ps) ! i) = PACKET_NOTIFICATION \<and>
      seqn ((p # ps) ! i) = lastSeqn s + 2 + of_nat i \<and> packet_text ((p # ps) ! i) = Inr ?t"
    using p(2-4) ps(3) by (auto simp: nth_Cons algebra_simps split: nat.split)
  ultimately show ?case using ps(2) by (intro exI [of _ "p # ps"]) simp
qed

lemma Worker_round_connected:
  assumes "notificationQueue s = n # ns" and "GetSession (recipient n) (profileManager s) \<noteq> Indeterminate"
  shows "Worker_round os s =
    (let ss = user_sockets (recipient n) (profileManager s) (sessionManager s) in
     if ss \<noteq> [] then res_fold (notify os n) ss (s\<lparr>notificationQueue := ns\<rparr>)
     else Inr (s\<lparr>notificationQueue := ns @ [n]\<rparr>))"
  using assms by (simp add: Worker_round_def live_sockets_known Let_def)

section \<open>Datagrams\<close>

lemma Listen_packet:
  assumes "isListening s" and "length buffer = bufferSize" and "packet_wf p"
    and "length pad1 = 6" and "length pad2 = 6"
  shows "\<exists>buffer'. Listen_round os (Some (from, packet_bytes pad1 pad2 p)) (buffer, s) =
    (buffer', s\<lparr>messageHandlerThreads := messageHandlerThreads s @
      [(p, \<lparr>address = os_inet_ntoa os (sin_addr from), port = uint (ntohs (sin_port from))\<rparr>)]\<rparr>)"
proof -
  have len: "length (packet_bytes pad1 pad2 p) = sizeof_Packet" by (rule length_packet_bytes [OF assms(4,5,3)])
  show ?thesis
    using assms(1,2) len packet_of_packet_bytes [OF assms(4,5,3), of "drop sizeof_Packet buffer"]
    by (auto simp: Listen_round_def Receive_def Let_def)
qed

section \<open>A server with two users\<close>

text \<open>Two connected users, the second from two addresses and following the first.\<close>

definition example_two :: Server where
  "example_two = example_server\<lparr>
     profileManager := \<lparr>profiles = [0, 1],
       profileHeap = [\<lparr>handle = ''ana'', followers = [1], session = SessionAt 0\<rparr>,
                      \<lparr>handle = ''bia'', followers = [], session = SessionAt 1\<rparr>],
       profilesFile = None, writable = True\<rparr>,
     sessionManager := \<lparr>sessions = [(''ana'', 0), (''bia'', 1)],
       sessionHeap = [\<lparr>sessionId = 1, userHandle = ''ana'', sockets = [example_client]\<rparr>,
                      \<lparr>sessionId = 1, userHandle = ''bia'', sockets =
                         [\<lparr>address = ''10.0.0.2'', port = 5001\<rparr>, \<lparr>address = ''10.0.0.2'', port = 5002\<rparr>]\<rparr>]\<rparr>\<rparr>"

definition example_send :: Packet where
  "example_send = projr (MakeSendCommand 1600000000 4 ''hi'')"

definition example_follow :: Packet where
  "example_follow = projr (MakeFollowCommand 1600000000 4 ''bia'')"

lemma all_less_two: "(\<forall>i < Suc (Suc 0). P i) \<longleftrightarrow> P 0 \<and> P (Suc 0)"
  by (auto simp: less_Suc_eq)

lemma filter_unique: "distinct xs \<Longrightarrow> x \<in> set xs \<Longrightarrow> filter (\<lambda>y. y = x) xs = [x]"
  by (induction xs) (auto simp: filter_empty_conv)

lemma example_send_facts: "ptype example_send = PACKET_SEND_CMD" "packet_text example_send = Inr ''hi''"
proof -
  obtain p where "MakeSendCommand 1600000000 4 ''hi'' = Inr p" "packet_text p = Inr ''hi''" "ptype p = PACKET_SEND_CMD"
    using Make_init [of "''hi''" 1600000000 PACKET_SEND_CMD "4 + 1" "length ''hi''"]
    by (auto simp: MakeSendCommand_def NUL_def)
  then show "ptype example_send = PACKET_SEND_CMD" "packet_text example_send = Inr ''hi''"
    by (simp_all add: example_send_def)
qed

lemma example_follow_facts: "ptype example_follow = PACKET_FOLLOW_CMD" "packet_text example_follow = Inr ''bia''"
proof -
  obtain p where "MakeFollowCommand 1600000000 4 ''bia'' = Inr p" "packet_text p = Inr ''bia''" "ptype p = PACKET_FOLLOW_CMD"
    using Make_init [of "''bia''" 1600000000 PACKET_FOLLOW_CMD "4 + 1" "length ''bia''"]
    by (auto simp: MakeFollowCommand_def NUL_def)
  then show "ptype example_follow = PACKET_FOLLOW_CMD" "packet_text example_follow = Inr ''bia''"
    by (simp_all add: example_follow_def)
qed

lemma example_send_ok: "packet_ok example_send"
  using example_send_facts
  by (auto simp: packet_ok_def packet_text_def string_of_array_def nameable_def TypeToStr_def split: if_splits)

lemma example_two_facts:
  "GetUserNameByAddressAndIP example_client (sessionManager example_two) = Some ''ana''"
  "GetUserNameByAddressAndIP \<lparr>address = ''10.0.0.2'', port = 5001\<rparr> (sessionManager example_two) = Some ''bia''"
  by (simp_all add: GetUserNameByAddressAndIP_def same_address_def example_two_def)

lemma example_two_inv: "server_inv example_two"
proof -
  let ?sm = "sessionManager example_two" and ?pm = "profileManager example_two"
  have two: "i = 0 \<or> i = 1" if "i < Suc (Suc 0)" for i :: nat using that by auto
  have "session_inv ?sm"
    unfolding session_inv_def
    by (intro conjI) (auto simp: example_two_def map_invar_def map_find_def split: if_splits dest!: two)
  moreover have "profile_inv ?pm" "handles_unique ?pm"
    by (simp_all add: example_two_def profile_inv_def profile_ok_def handles_unique_def upt_rec)
  moreover have "session_link ?pm ?sm" "users_known ?pm ?sm"
    by (auto simp: session_link_def users_known_def example_two_def GetSession_def GetHandle_def dest!: two)
  moreover have "replica_inv (replicaManager example_two)" "notificationQueue example_two = []"
    by (simp_all add: example_two_def example_server_def replica_inv_def IsPrimary_def)
  ultimately show ?thesis by (simp add: server_inv_def store_inv_def)
qed

lemma example_two_ok: "server_ok example_two"
  using example_two_inv
  by (auto simp: server_ok_def sessions_known_def has_primary_def IsPrimary_def example_two_def example_server_def
      GetSession_def less_Suc_eq)

definition example_connect_bia :: Packet where
  "example_connect_bia = projr (MakeConnectCommand 1600000000 4 ''bia'')"

lemma example_connect_bia_facts:
  "ptype example_connect_bia = PACKET_CONNECT_CMD" "packet_text example_connect_bia = Inr ''bia''"
proof -
  obtain p where "MakeConnectCommand 1600000000 4 ''bia'' = Inr p" "packet_text p = Inr ''bia''" "ptype p = PACKET_CONNECT_CMD"
    using Make_init [of "''bia''" 1600000000 PACKET_CONNECT_CMD "4 + 1" "length ''bia''"]
    by (auto simp: MakeConnectCommand_def NUL_def)
  then show "ptype example_connect_bia = PACKET_CONNECT_CMD" "packet_text example_connect_bia = Inr ''bia''"
    by (simp_all add: example_connect_bia_def)
qed

section \<open>Properties\<close>

text \<open>
  C16.  Posting: a message from the address of a connected user puts one notification for each of
  the user's followers at the end of the queue, in their order, with the sender's name and the
  text of the packet, and changes nothing else.
\<close>

theorem SEND_enqueues:
  assumes "server_inv s" and "ptype m = PACKET_SEND_CMD" and "packet_text m = Inr b"
    and "GetUserNameByAddressAndIP a (sessionManager s) = Some u"
  shows "\<exists>p. GetProfileByName u (profileManager s) = Some p \<and>
    MessageHandler os m a s = Inr (s\<lparr>notificationQueue := notificationQueue s @
      map (\<lambda>f. \<lparr>senderUsername = u, pn_body = b, recipient = f\<rparr>) (GetFollowers p (profileManager s))\<rparr>)"
proof -
  obtain p where p: "GetProfileByName u (profileManager s) = Some p"
    using GetUserName_profile [OF _ assms(4)] assms(1) by (auto simp: server_inv_def)
  then show ?thesis
    using handle_SEND_eq [OF assms(4) p assms(3)] assms(2)
    by (simp add: MessageHandler_def PendingNotification_new_def [abs_def])
qed

text \<open>
  Messages from an address that no session has are ignored: posts and follow requests leave
  the server as it is.
\<close>

lemma unauthenticated_ignored:
  assumes "server_inv s" and "\<forall>u. a \<notin> set (GetUserAddresses u (sessionManager s))"
    and "ptype m \<in> {PACKET_SEND_CMD, PACKET_FOLLOW_CMD, PACKET_REQUEST_USER_INFO}" and "packet_ok m"
  shows "MessageHandler os m a s = Inr s"
proof -
  have si: "session_inv (sessionManager s)" using assms(1) by (simp add: server_inv_def store_inv_def)
  have "GetUserNameByAddressAndIP a (sessionManager s) = None"
  proof (rule ccontr)
    assume "GetUserNameByAddressAndIP a (sessionManager s) \<noteq> None"
    then obtain k q where "(k, q) \<in> set (sessions (sessionManager s))"
      "a \<in> set (sockets (sessionHeap (sessionManager s) ! q))"
      by (fastforce simp: GetUserNameByAddressAndIP_def find_Some_iff same_address_fun list_ex_iff in_set_conv_nth)
    then have "a \<in> set (GetUserAddresses k (sessionManager s))"
      using std.entries_find [OF session_invD(1) [OF si]] by (auto simp: GetUserAddresses_def)
    with assms(2) show False by blast
  qed
  then show ?thesis
    using assms(3) packet_ok_text [OF assms(4)]
    by (auto simp: MessageHandler_def handle_SEND_def handle_FOLLOW_def handle_USER_INFO_def)
qed

text \<open>
  Delivery: when the recipient of the first notification is connected, a round of the worker
  removes it from the queue and sends one packet to each of the recipient's addresses, with the
  body \<open>@sender:\<close>, line feed, message, and consecutive sequence numbers; when the recipient is not
  connected, the notification goes to the end of the queue and nothing is sent.
\<close>

lemma Worker_round_delivers:
  assumes "notificationQueue s = n # ns" and "GetSession (recipient n) (profileManager s) \<noteq> Indeterminate"
    and "NUL \<notin> set (pn_body n)" and "NUL \<notin> set (senderUsername n)"
    and "length (pn_body n) + length (senderUsername n) \<le> 508"
  shows "let ss = user_sockets (recipient n) (profileManager s) (sessionManager s) in
    if ss = [] then Worker_round os s = Inr (s\<lparr>notificationQueue := ns @ [n]\<rparr>)
    else \<exists>ps. Worker_round os s = Inr (s\<lparr>notificationQueue := ns, lastSeqn := lastSeqn s + of_nat (length ss),
        sent := sent s @ datagrams os (srv_socket s) (zip ss ps)\<rparr>) \<and> length ps = length ss \<and>
      (\<forall>i < length ss. ptype (ps ! i) = PACKET_NOTIFICATION \<and> seqn (ps ! i) = lastSeqn s + 2 + of_nat i \<and>
        packet_text (ps ! i) = Inr (''@'' @ senderUsername n @ '':'' @ [CHR 0x0A] @ pn_body n))"
proof -
  let ?ss = "user_sockets (recipient n) (profileManager s) (sessionManager s)"
  note w = Worker_round_connected [OF assms(1,2), of os]
  note d = notify_all [OF assms(3-5), of os ?ss "s\<lparr>notificationQueue := ns\<rparr>"]
  show ?thesis
  proof (cases "?ss = []")
    case True
    then show ?thesis using w by (simp add: Let_def)
  next
    case False
    then show ?thesis using w d unfolding Let_def notification_text_def by simp
  qed
qed

theorem SEND_enqueues_witness:
  "\<exists>p. GetProfileByName ''ana'' (profileManager example_two) = Some p \<and>
    MessageHandler example_os example_send example_client example_two =
      Inr (example_two\<lparr>notificationQueue := notificationQueue example_two @
        map (\<lambda>f. \<lparr>senderUsername = ''ana'', pn_body = ''hi'', recipient = f\<rparr>)
          (GetFollowers p (profileManager example_two))\<rparr>)"
  by (rule SEND_enqueues [OF example_two_inv example_send_facts(1,2) example_two_facts(1)])

text \<open>
  C15.  Following has its effect on later posts: when a connected user \<open>u\<close> asks to follow another
  existing user \<open>w\<close>, then a later post of \<open>w\<close> queues exactly one notification for \<open>u\<close>, also when
  \<open>u\<close> followed before.
\<close>

theorem FOLLOW_then_SEND:
  assumes "server_inv s" and "ptype fm = PACKET_FOLLOW_CMD" and "packet_text fm = Inr w"
    and "GetUserNameByAddressAndIP a (sessionManager s) = Some u" and "w \<noteq> u"
    and "ptype sm = PACKET_SEND_CMD" and "packet_text sm = Inr b"
    and "GetUserNameByAddressAndIP c (sessionManager s) = Some w"
  shows "\<exists>s1 s2 f new. MessageHandler os fm a s = Inr s1 \<and> MessageHandler os' sm c s1 = Inr s2 \<and>
    GetProfileByName u (profileManager s) = Some f \<and> notificationQueue s2 = notificationQueue s @ new \<and>
    filter (\<lambda>n. recipient n = f) new = [\<lparr>senderUsername = w, pn_body = b, recipient = f\<rparr>]"
proof -
  have si: "store_inv (profileManager s) (sessionManager s)" using assms(1) by (simp add: server_inv_def)
  then have pi: "profile_inv (profileManager s)" by (simp add: store_inv_def)
  obtain f where f: "GetProfileByName u (profileManager s) = Some f" using GetUserName_profile [OF si assms(4)] by blast
  obtain p where p: "GetProfileByName w (profileManager s) = Some p" "p < length (profileHeap (profileManager s))"
    using GetUserName_profile [OF si assms(8)] by blast
  let ?pm = "snd (AddFollower p u True (profileManager s))"
  let ?s1 = "s\<lparr>profileManager := ?pm\<rparr>"
  have h1: "MessageHandler os fm a s = Inr ?s1"
    using assms(2-5) f p(1) AddFollower_answer [of p u True "profileManager s"]
    by (simp add: MessageHandler_def handle_FOLLOW_def split_def Let_def)
  have p1: "GetProfileByName w ?pm = Some p"
    using p(1) AddFollower_heap(2,3) [OF pi] by (simp add: GetProfileByName_def)
  have fl: "f \<in> set (GetFollowers p ?pm)" "distinct (GetFollowers p ?pm)"
  proof -
    show "f \<in> set (GetFollowers p ?pm)" using AddFollower_followers [OF p(2), of p u True] f by auto
    show "distinct (GetFollowers p ?pm)"
      using AddFollower_inv [OF pi, of p u True] AddFollower_heap(1) [OF pi, of p u True] p(2)
      by (simp add: profile_inv_iff profile_ok_def GetFollowers_def)
  qed
  have h2: "MessageHandler os' sm c ?s1 = Inr (?s1\<lparr>notificationQueue := notificationQueue s @
      map (PendingNotification_new w b) (GetFollowers p ?pm)\<rparr>)"
    using handle_SEND_eq [of c ?s1 w p sm b] assms(6-8) p1 by (simp add: MessageHandler_def)
  have "filter (\<lambda>n. recipient n = f) (map (PendingNotification_new w b) (GetFollowers p ?pm)) =
      [\<lparr>senderUsername = w, pn_body = b, recipient = f\<rparr>]"
    using fl filter_unique [of "GetFollowers p ?pm" f]
    by (simp add: filter_map comp_def PendingNotification_new_def)
  with h1 h2 f show ?thesis by fastforce
qed

theorem FOLLOW_then_SEND_witness:
  "\<exists>s1 s2 f new. MessageHandler example_os example_follow example_client example_two = Inr s1 \<and>
    MessageHandler example_os example_send \<lparr>address = ''10.0.0.2'', port = 5001\<rparr> s1 = Inr s2 \<and>
    GetProfileByName ''ana'' (profileManager example_two) = Some f \<and>
    notificationQueue s2 = notificationQueue example_two @ new \<and>
    filter (\<lambda>n. recipient n = f) new = [\<lparr>senderUsername = ''bia'', pn_body = ''hi'', recipient = f\<rparr>]"
  by (rule FOLLOW_then_SEND [OF example_two_inv example_follow_facts example_two_facts(1) _
        example_send_facts(1,2) example_two_facts(2)]) simp

text \<open>
  C14.  Connecting to the primary: the handler succeeds, a profile with the user's name exists
  afterwards, the address is added to the user's addresses unless the user already has two, other
  users keep theirs, and in either case one state change is pending that will answer to this
  address with the number of this request.
\<close>

theorem CONNECT_primary:
  assumes "server_ok s" and "IsPrimary (replicaManager s)" and "confirmationBuffer (replicaManager s) = Some b"
    and "ptype m = PACKET_CONNECT_CMD" and "packet_text m = Inr u"
  shows "\<exists>s' p c. MessageHandler os m a s = Inr s' \<and> GetProfileByName u (profileManager s') = Some p \<and>
    GetUserAddresses u (sessionManager s') = GetUserAddresses u (sessionManager s) @
      (if length (GetUserAddresses u (sessionManager s)) < MAX_SESSIONS_PER_USER then [a] else []) \<and>
    (\<forall>v. v \<noteq> u \<longrightarrow> GetUserAddresses v (sessionManager s') = GetUserAddresses v (sessionManager s)) \<and>
    confirmationBuffer (replicaManager s') = Some (b @ [c]) \<and> originalHost c = Some a \<and> originalSeqn c = seqn m \<and>
    awaited [c] = [lastSeqn s, lastSeqn s + 1, lastSeqn s + 2]"
proof -
  obtain p ses pm sm where c: "connect_store u a (profileManager s) (sessionManager s) = (p, ses, pm, sm)"
    by (metis prod_cases4)
  have si: "store_inv (profileManager s) (sessionManager s)" and ri: "replica_inv (replicaManager s)"
    using assms(1) by (auto simp: server_ok_def server_inv_def)
  note i = connect_store_inv [OF si c]
  let ?s = "s\<lparr>profileManager := pm, sessionManager := sm\<rparr>"
  have eq: "MessageHandler os m a s =
      res_bind (if ses = None then Inr [] else GetConnectedUsers (Some p) pm sm) (\<lambda>_. replicate_state os m a ?s)"
    using assms(4,5) c by (simp add: MessageHandler_def handle_CONNECT_eq)
  have "sessions_known pm" using connect_store_known [OF si _ c] assms(1) by (simp add: server_ok_def)
  then have "\<forall>q \<in> set (profiles pm). q \<noteq> p \<longrightarrow> GetSession q pm \<noteq> Indeterminate"
    using i(1) by (auto simp: sessions_known_def store_inv_def profile_inv_def)
  from GetConnectedUsers_known [OF this] eq have eq': "MessageHandler os m a s = replicate_state os m a ?s" by auto
  have b': "confirmationBuffer (replicaManager ?s) = Some b" using assms(3) by simp
  note r = BroadcastToSecondaries_eq [OF assms(4) b', of os a ?s]
  obtain s' where s': "MessageHandler os m a s = Inr s'" "profileManager s' = pm" "sessionManager s' = sm"
    "confirmationBuffer (replicaManager s') = Some (Push3 (map (\<lambda>n. BaseMessage2 n m)
          [lastSeqn s, lastSeqn s + 1, lastSeqn s + 2]) (seqn m) a b)"
    using eq' r assms(2) by (simp add: replicate_state_def)
  have "GetProfileByName u pm = Some p"
    using dir.lookup_unique [of pm p] i(1-3) by (auto simp: store_inv_def handles_unique_names profile_inv_def)
  moreover have "sm = snd (StartSession u a (sessionManager s))"
    using c find_or_create_store(3) [OF si] by (auto simp: connect_store_def Let_def split: prod.splits)
  moreover have "session_inv (sessionManager s)" using si by (simp add: store_inv_def)
  ultimately show ?thesis
    using s' StartSession_spec [of "sessionManager s" u a]
    by (auto simp: Push3_def fresh_items_def awaited_def BaseMessage2_def not_less)
qed

theorem CONNECT_primary_witness:
  "\<exists>s' p c. MessageHandler example_os example_connect \<lparr>address = ''10.0.0.9'', port = 6000\<rparr> example_two = Inr s' \<and>
    GetProfileByName ''ana'' (profileManager s') = Some p \<and>
    GetUserAddresses ''ana'' (sessionManager s') = [example_client, \<lparr>address = ''10.0.0.9'', port = 6000\<rparr>] \<and>
    confirmationBuffer (replicaManager s') = Some ([] @ [c]) \<and> originalSeqn c = 1"
proof -
  have "IsPrimary (replicaManager example_two)" "confirmationBuffer (replicaManager example_two) = Some []"
    "GetUserAddresses ''ana'' (sessionManager example_two) = [example_client]"
    by (simp_all add: example_two_def example_server_def IsPrimary_def GetUserAddresses_def map_find_def)
  with CONNECT_primary [OF example_two_ok _ _ example_connect_facts(1,2), of "[]" example_os
      "\<lparr>address = ''10.0.0.9'', port = 6000\<rparr>"]
  show ?thesis by fastforce
qed

text \<open>
  C36.  A refused connection is accepted in the end: when the user already has two addresses, the
  profiles and the sessions do not change, but the primary still starts a state change for the
  request, and the three confirmations of it make the ACCEPT leave for the refused client.
\<close>

theorem refused_connection_accepted:
  assumes "server_ok s" and "confirmationBuffer (replicaManager s) = Some []"
    and "ptype m = PACKET_CONNECT_CMD" and "packet_text m = Inr u"
    and "length (GetUserAddresses u (sessionManager s)) = MAX_SESSIONS_PER_USER"
    and "\<forall>a p. delivers os (srv_socket s) a p"
  shows "\<exists>s1 rm2 s2. MessageHandler os m a s = Inr s1 \<and>
    profileManager s1 = profileManager s \<and> sessionManager s1 = sessionManager s \<and>
    confirm_all os [lastSeqn s, lastSeqn s + 1, lastSeqn s + 2] (replicaManager s1) s1 = Inr (rm2, s2) \<and>
    (recipient_of os a, MakeAcceptConnCommand (os_time os) (seqn m)) \<in> set (sent s2)"
proof -
  have si: "store_inv (profileManager s) (sessionManager s)" and ri: "replica_inv (replicaManager s)"
    and sn: "session_inv (sessionManager s)"
    using assms(1) by (auto simp: server_ok_def server_inv_def store_inv_def)
  obtain p ses pm sm where c: "connect_store u a (profileManager s) (sessionManager s) = (p, ses, pm, sm)"
    by (metis prod_cases4)
  obtain pm1 where fc: "find_or_create u (profileManager s) = (p, pm1)"
    and st: "StartSession (GetHandle p pm1) a (sessionManager s) = (ses, sm)"
    using c by (auto simp: connect_store_def Let_def split: prod.splits)
  have "GetHandle p pm1 = u" by (rule find_or_create_store(3) [OF si fc])
  then have "ses = None" using st StartSession_spec(1) [OF sn, of u a] assms(5) by simp
  then have same: "pm = profileManager s" "sm = sessionManager s" "ses = None" using connect_refused [OF si] c by auto
  have prim: "IsPrimary (replicaManager s)" using ri assms(2) by (simp add: replica_inv_def)
  obtain rm1 s1 rm2 s2 new where r: "BroadcastToSecondaries os m a (replicaManager s) s = Inr (rm1, s1)"
    "confirm_all os [lastSeqn s, lastSeqn s + 1, lastSeqn s + 2] rm1 s1 = Inr (rm2, s2)"
    "sent s2 = sent s1 @ new" "(recipient_of os a, MakeAcceptConnCommand (os_time os) (seqn m)) \<in> set new"
    using accept_replies [OF ri assms(2,3,6), of a "[lastSeqn s, lastSeqn s + 1, lastSeqn s + 2]"] by auto
  let ?s1 = "s1\<lparr>replicaManager := rm1\<rparr>"
  have h: "MessageHandler os m a s = Inr ?s1"
    using assms(3,4) c same prim r(1) by (simp add: MessageHandler_def handle_CONNECT_eq replicate_state_def)
  have fr: "profileManager s1 = profileManager s" "sessionManager s1 = sessionManager s" "srv_socket s1 = srv_socket s"
    using BroadcastToSecondaries_eq [OF assms(3,2), of os a s] r(1) by auto
  have inv1: "replica_inv rm1" using replica_inv_Broadcast [OF ri assms(3) prim r(1)] .
  obtain b1 where b1: "confirmationBuffer rm1 = Some b1"
    using BroadcastToSecondaries_eq [OF assms(3,2), of os a s] r(1) by auto
  obtain rm2' s2' where "confirm_all os [lastSeqn s, lastSeqn s + 1, lastSeqn s + 2] rm1 ?s1 = Inr (rm2', s2')"
    "sent s2' = sent s2"
    using confirm_all_eq [OF inv1 b1, of os _ ?s1] confirm_all_eq [OF inv1 b1, of os _ s1] r(2) by auto
  moreover have "(recipient_of os a, MakeAcceptConnCommand (os_time os) (seqn m)) \<in> set (sent s2)"
    using r(3,4) by simp
  ultimately show ?thesis using h fr by auto
qed

theorem refused_connection_accepted_witness:
  "\<exists>s1 rm2 s2. MessageHandler example_os example_connect_bia example_client example_two = Inr s1 \<and>
    sessionManager s1 = sessionManager example_two \<and>
    confirm_all example_os [lastSeqn example_two, lastSeqn example_two + 1, lastSeqn example_two + 2]
      (replicaManager s1) s1 = Inr (rm2, s2) \<and>
    (recipient_of example_os example_client, MakeAcceptConnCommand (os_time example_os) (seqn example_connect_bia)) \<in> set (sent s2)"
proof -
  have "confirmationBuffer (replicaManager example_two) = Some []"
    "length (GetUserAddresses ''bia'' (sessionManager example_two)) = MAX_SESSIONS_PER_USER"
    "\<forall>a p. delivers example_os (srv_socket example_two) a p"
    by (simp_all add: example_two_def example_server_def GetUserAddresses_def map_find_def delivers_def example_os_def
        Bind_def Socket_new_def)
  from refused_connection_accepted [OF example_two_ok this(1) example_connect_bia_facts this(2,3), of example_client]
  show ?thesis by blast
qed

text \<open>
  C35.  The first connection after a restart: a server that loads a file with two or more profiles,
  as \<open>Sync\<close> wrote it, reads an uninitialised session pointer as soon as anybody connects.
\<close>

theorem restart_connect_fails:
  assumes "profile_inv pm" and "handles_unique pm" and "\<forall>p \<in> set (profileHeap pm). handle_ok (handle p)"
    and "int (length (profileHeap pm)) \<le> INT_MAX" and "writable pm" and "2 \<le> length (profileHeap pm)"
    and "Server_new d (profilesFile (Sync pm)) w ba bp pl pr = Some (Inr s)"
    and "ptype m = PACKET_CONNECT_CMD" and "packet_text m = Inr u"
  shows "MessageHandler os m a s = Inl UninitialisedRead"
proof -
  let ?pm = "\<lparr>profiles = profiles pm, profileHeap = map (\<lambda>p. p\<lparr>session := Indeterminate\<rparr>) (profileHeap pm),
      profilesFile = profilesFile (Sync pm), writable = w\<rparr>"
  have s: "profileManager s = ?pm" "sessionManager s = SessionManager_new"
    using assms(7) by (auto simp: Server_new_def Sync_Read [OF assms(1-5)] res_simps)
  have ind: "GetSession q ?pm = Indeterminate" if "q < length (profileHeap pm)" for q
    using that by (simp add: GetSession_def)
  have "profile_inv ?pm" using assms(1) by (auto simp: profile_inv_def profile_ok_def)
  moreover have "handles_unique ?pm" using assms(2) by (simp add: handles_unique_def comp_def)
  moreover have "session_link ?pm SessionManager_new" using ind by (simp add: session_link_def)
  moreover have "users_known ?pm SessionManager_new" by (simp add: users_known_def SessionManager_new_def)
  ultimately have si: "store_inv ?pm SessionManager_new" using session_inv_new by (simp add: store_inv_def)
  obtain p ses pm' sm' where c: "connect_store u a ?pm SessionManager_new = (p, ses, pm', sm')" by (metis prod_cases4)
  note i = connect_store_inv [OF si c]
  have "ses \<noteq> None"
    using c by (auto simp: connect_store_def Let_def StartSession_def SessionManager_new_def map_find_def split: prod.splits)
  moreover obtain q where q: "q < length (profileHeap pm)" "q \<noteq> p"
    using assms(6) by (cases "p = 0") (auto intro: that [of 0] that [of 1])
  have "q < length (profileHeap pm')" using q(1) i(4) by simp
  then have "GetSession q pm' = Indeterminate" "q \<in> set (profiles pm')"
    using i(1) i(5) [of q] q ind by (auto simp: store_inv_def profile_inv_def)
  then have "GetConnectedUsers (Some p) pm' sm' = Inl UninitialisedRead" using q(2) GetConnectedUsers_unknown by blast
  ultimately show ?thesis using assms(8,9) s c by (auto simp: MessageHandler_def handle_CONNECT_eq)
qed

theorem restart_connect_fails_witness:
  "\<exists>s. Server_new 3 (profilesFile (Sync example_profiles)) True ''127.0.0.1'' 4000 [] True = Some (Inr s) \<and>
    MessageHandler example_os example_connect example_client s = Inl UninitialisedRead"
proof -
  have pre: "profile_inv example_profiles" "handles_unique example_profiles"
    "\<forall>p \<in> set (profileHeap example_profiles). handle_ok (handle p)"
    "int (length (profileHeap example_profiles)) \<le> INT_MAX" "writable example_profiles"
    "2 \<le> length (profileHeap example_profiles)"
    by (simp_all add: example_profiles_def profile_inv_def profile_ok_def Profile2_def upt_rec handles_unique_def
        handle_ok_def isspace_def)
  obtain s where s: "Server_new 3 (profilesFile (Sync example_profiles)) True ''127.0.0.1'' 4000 [] True = Some (Inr s)"
    by (simp add: Server_new_def Sync_Read [OF pre(1-5)] ReplicaManager_new_def ParsePeersArgument_def Split_def)
  from restart_connect_fails [OF pre s example_connect_facts(1,2)] s show ?thesis by blast
qed

text \<open>
  C24.  From the wire to the handler: a datagram with the bytes of a well-formed packet, whatever
  its padding and whatever the buffer held, makes the listening thread start exactly one handler
  with that packet and the sender's address and port.
\<close>

theorem Listen_dispatches:
  assumes "isListening s" and "length buffer = bufferSize" and "packet_wf p"
    and "length pad1 = 6" and "length pad2 = 6"
  shows "\<exists>buffer'. Listen_round os (Some (from, packet_bytes pad1 pad2 p)) (buffer, s) =
    (buffer', s\<lparr>messageHandlerThreads := messageHandlerThreads s @
      [(p, \<lparr>address = os_inet_ntoa os (sin_addr from), port = uint (ntohs (sin_port from))\<rparr>)]\<rparr>)"
  by (rule Listen_packet [OF assms])

theorem Listen_dispatches_witness:
  "\<exists>buffer'. Listen_round example_os (Some (\<lparr>sin_port = htons 5000, sin_addr = 9\<rparr>,
      packet_bytes (replicate 6 255) (replicate 6 1) example_connect)) (replicate 2048 0, example_server) =
    (buffer', example_server\<lparr>messageHandlerThreads := messageHandlerThreads example_server @
      [(example_connect, \<lparr>address = os_inet_ntoa example_os (sin_addr \<lparr>sin_port = htons 5000, sin_addr = 9\<rparr>),
        port = uint (ntohs (sin_port \<lparr>sin_port = htons 5000, sin_addr = 9\<rparr>))\<rparr>)]\<rparr>)"
  by (rule Listen_dispatches) (simp_all add: example_server_def)

text \<open>
  Short datagrams are completed from the previous one: when only the 32 header bytes of a
  packet arrive, the handler gets that header with the payload of the packet that was received
  before.
\<close>

lemma Listen_stale_payload:
  assumes "isListening s" and "packet_wf p" and "packet_wf q" and "length pad1 = 6" and "length pad2 = 6"
    and "length pad3 = 6" and "length pad4 = 6" and "length junk = 1504"
  shows "\<exists>buffer' a. Listen_round os (Some (from, take 32 (packet_bytes pad1 pad2 p)))
      (packet_bytes pad3 pad4 q @ junk, s) =
    (buffer', s\<lparr>messageHandlerThreads := messageHandlerThreads s @ [(p\<lparr>payload := payload q\<rparr>, a)]\<rparr>)"
proof -
  have split: "take 32 (packet_bytes pad1 pad2 p) @ drop 32 (packet_bytes pad3 pad4 q) =
      packet_bytes pad1 pad2 (p\<lparr>payload := payload q\<rparr>)"
    using assms(4-7) by (simp add: packet_bytes_def)
  have len: "length (packet_bytes pad1 pad2 p) = sizeof_Packet" "length (packet_bytes pad3 pad4 q) = sizeof_Packet"
    using length_packet_bytes assms by blast+
  have wf: "packet_wf (p\<lparr>payload := payload q\<rparr>)" using assms(3) by (simp add: packet_wf_def)
  have "packet_of_bytes (take 32 (packet_bytes pad1 pad2 p) @ drop 32 (packet_bytes pad3 pad4 q @ junk)) = p\<lparr>payload := payload q\<rparr>"
  proof -
    have "take 32 (packet_bytes pad1 pad2 p) @ drop 32 (packet_bytes pad3 pad4 q @ junk) =
        packet_bytes pad1 pad2 (p\<lparr>payload := payload q\<rparr>) @ junk"
      using len(2) by (simp flip: split)
    then show ?thesis using packet_of_packet_bytes [OF assms(4,5) wf, of junk] by (simp only:)
  qed
  moreover have "length (take 32 (packet_bytes pad1 pad2 p)) = 32" using len(1) by simp
  ultimately show ?thesis using assms(1,8) len
    by (auto simp: Listen_round_def Receive_def Let_def)
qed

text \<open>
  Packets of a type that the protocol does not have end the server: for every type above 10
  the handler prints the name of the type, and the function that should return it runs off its
  end.
\<close>

lemma unknown_type_fails:
  assumes "PACKET_CONFIRM_STATE_CHANGE < ptype m"
  shows "MessageHandler os m a s = Inl MissingReturn"
proof -
  have "ptype m \<notin> {0, 1, 2, 3, 4, 5, 6, 7, 8, 9, 10}" using assms by auto
  then show ?thesis by (simp add: MessageHandler_def TypeToStr_def)
qed

end
