(* ===== verification/Cluster.thy ===== *)
theory Cluster
  imports Server_Safety
begin

text \<open>
  A primary and its secondaries together.  The lemmas describe the two halves of a replicated
  connection: what a secondary answers to the copy of a CONNECT packet, and what the primary does
  with a sequence of CONFIRM packets.  The property composes them: a client's connection reaches
  every replica and is accepted exactly when all three have confirmed.
\<close>

section \<open>A secondary\<close>

lemma handle_CONNECT_ok_eq:
  assumes "server_ok s" and "ptype m = PACKET_CONNECT_CMD" and "packet_text m = Inr u"
    and c: "connect_store u a (profileManager s) (sessionManager s) = (p, ses, pm, sm)"
  shows "MessageHandler os m a s = replicate_state os m a (s\<lparr>profileManager := pm, sessionManager := sm\<rparr>)"
proof -
  have si: "store_inv (profileManager s) (sessionManager s)" using assms(1) by (simp add: server_ok_def server_inv_def)
  have "sessions_known pm" using connect_store_known [OF si _ c] assms(1) by (simp add: server_ok_def)
  then have "\<forall>q \<in> set (profiles pm). q \<noteq> p \<longrightarrow> GetSession q pm \<noteq> Indeterminate"
    using connect_store_inv(1) [OF si c] by (auto simp: sessions_known_def store_inv_def profile_inv_def)
  from GetConnectedUsers_known [OF this] show ?thesis
    using assms(2,3) c by (simp add: MessageHandler_def handle_CONNECT_eq)
qed

lemma find_primary:
  "has_primary rm \<Longrightarrow> \<not> IsPrimary rm \<Longrightarrow> \<exists>p. List.find peer_primary (peers rm) = Some p"
  by (cases "List.find peer_primary (peers rm)") (auto simp: has_primary_def find_None_iff list_ex_iff)

lemma secondary_confirms:
  assumes "server_ok s" and "\<not> IsPrimary (replicaManager s)" and "ptype m = PACKET_CONNECT_CMD"
    and "packet_text m = Inr u" and "\<forall>a p. delivers os (srv_socket s) a p"
  shows "\<exists>s' pr p. MessageHandler os m a s = Inr s' \<and> server_ok s' \<and>
    GetProfileByName u (profileManager s') = Some p \<and> GetPrimaryReplica (replicaManager s) = Inr pr \<and>
    sent s' = sent s @ [(recipient_of os (GetSocketAddress pr), MakeConfirmStateChangeMessage (os_time os) (seqn m))]"
proof -
  obtain p ses pm sm where c: "connect_store u a (profileManager s) (sessionManager s) = (p, ses, pm, sm)"
    by (metis prod_cases4)
  have si: "store_inv (profileManager s) (sessionManager s)" using assms(1) by (simp add: server_ok_def server_inv_def)
  note i = connect_store_inv [OF si c]
  let ?s = "s\<lparr>profileManager := pm, sessionManager := sm\<rparr>"
  note eq = handle_CONNECT_ok_eq [OF assms(1,3,4) c, of os]
  obtain pr where pr: "List.find peer_primary (peers (replicaManager s)) = Some pr"
    using find_primary assms(1,2) by (auto simp: server_ok_def)
  let ?m = "MakeConfirmStateChangeMessage (os_time os) (seqn m)"
  obtain r where "socket_send os (GetSocketAddress pr) ?m ?s =
      Inr (r, ?s\<lparr>sent := sent s @ [(recipient_of os (GetSocketAddress pr), ?m)]\<rparr>)"
    using socket_send_eq [of ?m os "GetSocketAddress pr" ?s] assms(5) by (auto simp: MakeConfirmStateChangeMessage_def)
  then have h: "MessageHandler os m a s = Inr (?s\<lparr>sent := sent s @ [(recipient_of os (GetSocketAddress pr), ?m)]\<rparr>)"
    using eq assms(2) pr by (simp add: replicate_state_def ConfirmMessage_def GetPrimaryReplica_def)
  have "server_ok (?s\<lparr>sent := sent s @ [(recipient_of os (GetSocketAddress pr), ?m)]\<rparr>)"
    using assms(1) i(1,4) connect_store_known [OF si _ c] by (fastforce simp: server_ok_def server_inv_def)
  moreover have "GetPrimaryReplica (replicaManager s) = Inr pr" using assms(2) pr by (simp add: GetPrimaryReplica_def)
  moreover have "GetProfileByName u pm = Some p"
    using dir.lookup_unique [of pm p] i(1-3) by (auto simp: store_inv_def handles_unique_names profile_inv_def)
  ultimately show ?thesis
    using h by (intro exI [of _ "?s\<lparr>sent := sent s @ [(recipient_of os (GetSocketAddress pr), ?m)]\<rparr>"]) auto
qed

section \<open>The primary\<close>

abbreviation confirm_packet :: "Os \<Rightarrow> u64 \<Rightarrow> Packet" where
  "confirm_packet os k \<equiv> MakeConfirmStateChangeMessage (os_time os) k"

lemma primary_confirm:
  assumes "replica_inv (replicaManager s)" and "confirmationBuffer (replicaManager s) = Some b"
  shows "MessageHandler os (confirm_packet os k) a s =
    Inr (s\<lparr>sent := sent s @ datagrams os (srv_socket s) (map (accept_of os) (filter ContainerConfirmed (map (mark k) b))),
           replicaManager := (replicaManager s)\<lparr>confirmationBuffer := Some (map (mark k) b)\<rparr>\<rparr>)"
  using ConfirmMessage_primary [OF assms, of os k s]
  by (simp add: MessageHandler_def handle_CONFIRM_def MakeConfirmStateChangeMessage_def)

lemma primary_confirms:
  assumes "replica_inv (replicaManager s)" and "confirmationBuffer (replicaManager s) = Some b"
  shows "\<exists>s'. res_fold (\<lambda>(k, a). MessageHandler os (confirm_packet os k) a) kas s = Inr s' \<and>
    sent s' = sent s @ datagrams os (srv_socket s) (accepts os (map fst kas) b) \<and>
    profileManager s' = profileManager s \<and> sessionManager s' = sessionManager s"
  using assms
proof (induction kas arbitrary: s b)
  case Nil
  then show ?case by simp
next
  case (Cons ka kas)
  obtain k a where ka: "ka = (k, a)" by fastforce
  let ?s = "s\<lparr>sent := sent s @ datagrams os (srv_socket s) (map (accept_of os) (filter ContainerConfirmed (map (mark k) b))),
    replicaManager := (replicaManager s)\<lparr>confirmationBuffer := Some (map (mark k) b)\<rparr>\<rparr>"
  have h: "MessageHandler os (confirm_packet os k) a s = Inr ?s" by (rule primary_confirm [OF Cons.prems])
  have "replica_inv (replicaManager ?s)"
    using replica_inv_Confirm [OF Cons.prems(1) ConfirmMessage_primary [OF Cons.prems, of os k s]] by simp
  from Cons.IH [OF this, of "map (mark k) b"] h ka show ?case by fastforce
qed

text \<open>Answers to one pending request: its ACCEPT leaves when all its numbers are among them.\<close>

lemma pending_answered:
  assumes "replica_inv (replicaManager s)"
    and "confirmationBuffer (replicaManager s) = Some (Push3 (map (\<lambda>n. BaseMessage2 n m) ns) q a [])"
    and "ns \<noteq> []" and "\<forall>a p. delivers os (srv_socket s) a p"
  shows "\<exists>s' new. res_fold (\<lambda>(k, b). MessageHandler os (confirm_packet os k) b) kas s = Inr s' \<and>
    sent s' = sent s @ new \<and>
    ((recipient_of os a, MakeAcceptConnCommand (os_time os) q) \<in> set new \<longleftrightarrow> set ns \<subseteq> fst ` set kas)"
proof -
  let ?b = "Push3 (map (\<lambda>n. BaseMessage2 n m) ns) q a []"
  obtain s' where s': "res_fold (\<lambda>(k, b). MessageHandler os (confirm_packet os k) b) kas s = Inr s'"
    "sent s' = sent s @ datagrams os (srv_socket s) (accepts os (map fst kas) ?b)"
    using primary_confirms [OF assms(1,2), of os kas] by auto
  have "(recipient_of os a, MakeAcceptConnCommand (os_time os) q)
      \<in> set (datagrams os (srv_socket s) (accepts os (map fst kas) ?b)) \<longleftrightarrow> set ns \<subseteq> fst ` set kas"
    using accepts_pushed [of "[]" os a q ns "map fst kas" m] assms(3,4) by (simp add: datagrams_delivered)
  with s' show ?thesis by blast
qed

text \<open>A secondary that knows its primary, for concrete runs.\<close>

definition example_secondary :: Server where
  "example_secondary = example_server\<lparr>replicaManager :=
     \<lparr>thisPeer = \<lparr>peer_address = ''127.0.0.1'', peer_port = 4001, peer_primary = False\<rparr>,
      peers = [\<lparr>peer_address = ''127.0.0.1'', peer_port = 4000, peer_primary = True\<rparr>],
      confirmationBuffer = None\<rparr>\<rparr>"

lemma example_deliver: "delivers example_os (srv_socket example_server) a p"
  by (simp add: delivers_def example_os_def example_server_def Bind_def Socket_new_def)

lemma example_secondary_ok: "server_ok example_secondary" "\<not> IsPrimary (replicaManager example_secondary)"
  "\<forall>a p. delivers example_os (srv_socket example_secondary) a p"
  using server_init_ok [OF example_server_init] example_deliver
  by (simp_all add: example_secondary_def server_ok_def server_inv_def has_primary_def replica_inv_def IsPrimary_def)

section \<open>Properties\<close>

text \<open>
  C10.  A replicated connection from end to end: the primary sends one copy of the client's request
  to each of its three secondaries, in their order and with three consecutive numbers; each
  secondary, whatever its own state, creates or finds the user's profile and answers the primary it
  knows with the number of its copy; and when such answers reach the primary, in any order and from
  any addresses, the datagram with the ACCEPT leaves for the client if and only if all three have
  arrived.  The packets are handled one at a time and the sockets work.
\<close>

theorem connection_replicated:
  assumes "server_ok P" and "confirmationBuffer (replicaManager P) = Some []"
    and "length (GetSecondaryReplicas (replicaManager P)) = 3" and "ptype m = PACKET_CONNECT_CMD"
    and "packet_text m = Inr u" and "\<forall>a p. delivers os (srv_socket P) a p"
  shows "\<exists>P1 copies. MessageHandler os m a P = Inr P1 \<and> sent P1 = sent P @ copies \<and>
    map fst copies = map (\<lambda>p. recipient_of os (GetSocketAddress p)) (GetSecondaryReplicas (replicaManager P)) \<and>
    map snd copies = map (\<lambda>n. m\<lparr>seqn := n\<rparr>) [lastSeqn P, lastSeqn P + 1, lastSeqn P + 2] \<and>
    (\<forall>(h, copy) \<in> set copies. \<forall>S b. server_ok S \<and> \<not> IsPrimary (replicaManager S) \<and>
        (\<forall>a p. delivers os (srv_socket S) a p) \<longrightarrow>
      (\<exists>S' pr p. MessageHandler os copy b S = Inr S' \<and> GetProfileByName u (profileManager S') = Some p \<and>
        GetPrimaryReplica (replicaManager S) = Inr pr \<and>
        sent S' = sent S @ [(recipient_of os (GetSocketAddress pr), confirm_packet os (seqn copy))])) \<and>
    (\<forall>kas. \<exists>P2 new. res_fold (\<lambda>(k, b). MessageHandler os (confirm_packet os k) b) kas P1 = Inr P2 \<and>
      sent P2 = sent P1 @ new \<and>
      ((recipient_of os a, MakeAcceptConnCommand (os_time os) (seqn m)) \<in> set new \<longleftrightarrow>
        (\<lambda>(h, copy). seqn copy) ` set copies \<subseteq> fst ` set kas))"
proof -
  obtain p ses pm sm where c: "connect_store u a (profileManager P) (sessionManager P) = (p, ses, pm, sm)"
    by (metis prod_cases4)
  have ri: "replica_inv (replicaManager P)" using assms(1) by (simp add: server_ok_def server_inv_def)
  then have prim: "IsPrimary (replicaManager P)" using assms(2) by (simp add: replica_inv_def)
  let ?P = "P\<lparr>profileManager := pm, sessionManager := sm\<rparr>" and ?n = "lastSeqn P"
  have b0: "confirmationBuffer (replicaManager ?P) = Some []" using assms(2) by simp
  note r = BroadcastToSecondaries_eq [OF assms(4) b0, of os a ?P]
  let ?ms = "map (\<lambda>n. BaseMessage2 n m) [?n, ?n + 1, ?n + 2]"
  let ?b = "Push3 ?ms (seqn m) a []"
  obtain x y z where xyz: "GetSecondaryReplicas (replicaManager P) = [x, y, z]"
    using assms(3) by (auto simp: numeral_3_eq_3 length_Suc_conv)
  let ?copies = "[(recipient_of os (GetSocketAddress x), m\<lparr>seqn := ?n\<rparr>),
    (recipient_of os (GetSocketAddress y), m\<lparr>seqn := ?n + 1\<rparr>), (recipient_of os (GetSocketAddress z), m\<lparr>seqn := ?n + 2\<rparr>)]"
  let ?P1 = "?P\<lparr>lastSeqn := ?n + 3, sent := sent P @ ?copies,
    replicaManager := (replicaManager P)\<lparr>confirmationBuffer := Some ?b\<rparr>\<rparr>"
  have first: "MessageHandler os m a P = Inr ?P1"
    using handle_CONNECT_ok_eq [OF assms(1,4,5) c, of os] r prim xyz assms(6) by (simp add: replicate_state_def)
  have sec: "\<exists>S' pr p. MessageHandler os copy b S = Inr S' \<and> GetProfileByName u (profileManager S') = Some p \<and>
      GetPrimaryReplica (replicaManager S) = Inr pr \<and>
      sent S' = sent S @ [(recipient_of os (GetSocketAddress pr), confirm_packet os (seqn copy))]"
    if "(h, copy) \<in> set ?copies" "server_ok S" "\<not> IsPrimary (replicaManager S)" "\<forall>a p. delivers os (srv_socket S) a p"
    for h copy S b
  proof -
    have "ptype copy = PACKET_CONNECT_CMD" "packet_text copy = Inr u"
      using that(1) assms(4,5) by (auto simp: packet_text_def)
    from secondary_confirms [OF that(2,3) this that(4), of b] show ?thesis by blast
  qed
  have inv1: "replica_inv (replicaManager ?P1)"
    using replica_inv_Broadcast [OF _ assms(4) _ r] ri prim by simp
  have conf: "\<exists>P2 new. res_fold (\<lambda>(k, b). MessageHandler os (confirm_packet os k) b) kas ?P1 = Inr P2 \<and>
      sent P2 = sent ?P1 @ new \<and>
      ((recipient_of os a, MakeAcceptConnCommand (os_time os) (seqn m)) \<in> set new \<longleftrightarrow>
        (\<lambda>(h, copy). seqn copy) ` set ?copies \<subseteq> fst ` set kas)" for kas
    using pending_answered [OF inv1, of m "[?n, ?n + 1, ?n + 2]" "seqn m" a os kas] assms(6) by simp
  have copies: "\<forall>(h, copy) \<in> set ?copies. \<forall>S b. server_ok S \<and> \<not> IsPrimary (replicaManager S) \<and>
        (\<forall>a p. delivers os (srv_socket S) a p) \<longrightarrow>
      (\<exists>S' pr p. MessageHandler os copy b S = Inr S' \<and> GetProfileByName u (profileManager S') = Some p \<and>
        GetPrimaryReplica (replicaManager S) = Inr pr \<and>
        sent S' = sent S @ [(recipient_of os (GetSocketAddress pr), confirm_packet os (seqn copy))])"
    by (clarify, rule sec)
  show ?thesis
    by (rule exI [of _ ?P1], rule exI [of _ ?copies], intro conjI allI, rule first, simp, simp add: xyz, simp,
        rule copies, rule conf)
qed

theorem connection_replicated_witness:
  "\<exists>P1 (copies :: (sockaddr_in \<times> Packet) list) h copy rest' S' h' P2 new P3 new'.
    MessageHandler example_os example_connect example_client (example_server\<lparr>replicaManager := example_primary\<rparr>) = Inr P1 \<and>
    copies = (h, copy) # rest' \<and>
    MessageHandler example_os copy example_client example_secondary = Inr S' \<and>
    sent S' = sent example_secondary @ [(h', confirm_packet example_os (seqn copy))] \<and>
    res_fold (\<lambda>(k, b). MessageHandler example_os (confirm_packet example_os k) b)
      (map (\<lambda>(h, copy). (seqn copy, example_client)) copies) P1 = Inr P2 \<and> sent P2 = sent P1 @ new \<and>
    (recipient_of example_os example_client, MakeAcceptConnCommand (os_time example_os) (seqn example_connect)) \<in> set new \<and>
    res_fold (\<lambda>(k, b). MessageHandler example_os (confirm_packet example_os k) b) [] P1 = Inr P3 \<and> sent P3 = sent P1 @ new' \<and>
    (recipient_of example_os example_client, MakeAcceptConnCommand (os_time example_os) (seqn example_connect)) \<notin> set new'"
proof -
  let ?P = "example_server\<lparr>replicaManager := example_primary\<rparr>"
  let ?acc = "(recipient_of example_os example_client, MakeAcceptConnCommand (os_time example_os) (seqn example_connect))"
  have P: "server_ok ?P" "confirmationBuffer (replicaManager ?P) = Some []"
    "length (GetSecondaryReplicas (replicaManager ?P)) = 3" "\<forall>a p. delivers example_os (srv_socket ?P) a p"
    using server_init_ok [OF example_server_init] example_deliver
    by (simp_all add: server_ok_def server_inv_def has_primary_def)
  note r = connection_replicated [OF P(1-3) example_connect_facts(1,2) P(4), of example_client]
  obtain P1 copies where 1: "MessageHandler example_os example_connect example_client ?P = Inr P1"
    "map snd copies = map (\<lambda>n. example_connect\<lparr>seqn := n\<rparr>) [lastSeqn ?P, lastSeqn ?P + 1, lastSeqn ?P + 2]"
    "\<forall>(h, copy) \<in> set copies. \<forall>S b. server_ok S \<and> \<not> IsPrimary (replicaManager S) \<and>
        (\<forall>a p. delivers example_os (srv_socket S) a p) \<longrightarrow>
      (\<exists>S' pr p. MessageHandler example_os copy b S = Inr S' \<and> GetProfileByName ''ana'' (profileManager S') = Some p \<and>
        GetPrimaryReplica (replicaManager S) = Inr pr \<and>
        sent S' = sent S @ [(recipient_of example_os (GetSocketAddress pr), confirm_packet example_os (seqn copy))])"
    "\<forall>kas. \<exists>P2 new. res_fold (\<lambda>(k, b). MessageHandler example_os (confirm_packet example_os k) b) kas P1 = Inr P2 \<and>
      sent P2 = sent P1 @ new \<and>
      (?acc \<in> set new \<longleftrightarrow> (\<lambda>(h, copy). seqn copy) ` set copies \<subseteq> fst ` set kas)"
    "sent P1 = sent ?P @ copies"
    using r by (elim exE conjE) (rule that)
  obtain h copy rest' where 2: "copies = (h, copy) # rest'" using 1(2) by (cases copies) auto
  obtain S' h' where 3: "MessageHandler example_os copy example_client example_secondary = Inr S'"
    "sent S' = sent example_secondary @ [(h', confirm_packet example_os (seqn copy))]"
    using bspec [OF 1(3), of "(h, copy)", unfolded prod.case, rule_format, of example_secondary example_client]
      2 example_secondary_ok by auto
  have sub: "(\<lambda>(h, copy). seqn copy) ` set copies \<subseteq> fst ` set (map (\<lambda>(h, copy). (seqn copy, example_client)) copies)"
    by force
  have nsub: "\<not> (\<lambda>(h, copy). seqn copy) ` set copies \<subseteq> fst ` set []" by (simp add: 2)
  obtain P2 new where 4: "res_fold (\<lambda>(k, b). MessageHandler example_os (confirm_packet example_os k) b)
      (map (\<lambda>(h, copy). (seqn copy, example_client)) copies) P1 = Inr P2" "sent P2 = sent P1 @ new" "?acc \<in> set new"
    using 1(4) [rule_format, of "map (\<lambda>(h, copy). (seqn copy, example_client)) copies"] sub by blast
  obtain P3 new' where 5: "res_fold (\<lambda>(k, b). MessageHandler example_os (confirm_packet example_os k) b) [] P1 = Inr P3"
    "sent P3 = sent P1 @ new'" "?acc \<notin> set new'"
    using 1(4) [rule_format, of "[]"] nsub by blast
  show ?thesis
    by (intro exI conjI) (rule 1(1), rule 2, rule 3(1), rule 3(2), rule 4(1), rule 4(2), rule 4(3), rule 5(1), rule 5(2), rule 5(3))
qed

end
