(* ===== verification/Resumption.thy ===== *)
theory Resumption
  imports Prelude
begin

text \<open>
  Threads as sequences of atomic pieces.  A thread is finished or offers its next piece, a function
  of the shared state that fails or gives the rest of the thread and the new state; what a thread
  remembers between two pieces is in the rest.  \<open>run\<close> executes a thread alone, the step relation
  interleaves the pieces of all threads.  Invariants of interleaved threads are proved one thread
  at a time: \<open>guarded\<close> says that every piece of a thread, started in a state with the invariant
  and with what the thread knows, keeps the invariant and changes the state only as the others
  rely on; what a thread knows must survive such changes.
\<close>

section \<open>Threads\<close>

datatype 's thread = Finished | Atomic "'s \<Rightarrow> ('s thread \<times> 's) res"

primrec run :: "'s thread \<Rightarrow> 's \<Rightarrow> 's res" where
  "run Finished = (\<lambda>s. Inr s)"
| "run (Atomic f) =
     (\<lambda>s. case map_sum id (map_prod run id) (f s) of Inl e \<Rightarrow> Inl e | Inr (r, s') \<Rightarrow> r s')"

lemma run_Atomic [simp]: "run (Atomic f) s = res_bind (f s) (\<lambda>(t, s'). run t s')"
  by (cases "f s") auto

declare run.simps(2) [simp del]

text \<open>
  A configuration is the shared state with the threads.  Thread 0 is the one with an endless loop:
  it takes a new round when it has finished one.  Other threads are started at any time.
\<close>

type_synonym 's config = "'s \<times> 's thread list"

inductive interleave :: "('s thread \<Rightarrow> bool) \<Rightarrow> ('s thread \<Rightarrow> bool) \<Rightarrow> 's config \<Rightarrow> 's config \<Rightarrow> bool"
  for looping :: "'s thread \<Rightarrow> bool" and start :: "'s thread \<Rightarrow> bool" where
  piece: "i < length ts \<Longrightarrow> ts ! i = Atomic f \<Longrightarrow> f s = Inr (t, s') \<Longrightarrow>
    interleave looping start (s, ts) (s', ts[i := t])"
| started: "start t \<Longrightarrow> interleave looping start (s, ts) (s, ts @ [t])"
| looped: "looping t \<Longrightarrow> interleave looping start (s, Finished # ts) (s, t # ts)"

text \<open>The failures that the next piece of some thread can have.\<close>

definition failures :: "'s config \<Rightarrow> cpp_error set" where
  "failures c = {e. \<exists>f \<in> {f. Atomic f \<in> set (snd c)}. f (fst c) = Inl e}"

text \<open>A scheduler that is given the indices of the threads to run, for concrete interleavings.\<close>

fun schedule :: "nat list \<Rightarrow> 's config \<Rightarrow> 's config option" where
  "schedule [] c = Some c"
| "schedule (i # is) (s, ts) =
     (if i < length ts
      then (case ts ! i of
              Finished \<Rightarrow> None
            | Atomic f \<Rightarrow> (case f s of Inl e \<Rightarrow> None | Inr (t, s') \<Rightarrow> schedule is (s', ts[i := t])))
      else None)"

lemma schedule_reachable:
  "schedule is c = Some d \<Longrightarrow> reachable init (interleave looping start) c
    \<Longrightarrow> reachable init (interleave looping start) d"
proof (induction "is" c rule: schedule.induct)
  case (1 c)
  then show ?case by simp
next
  case (2 i "is" s ts)
  then obtain f t s' where i: "i < length ts" "ts ! i = Atomic f" "f s = Inr (t, s')"
    and rest: "schedule is (s', ts[i := t]) = Some d"
    by (auto split: if_splits thread.splits sum.splits)
  have "reachable init (interleave looping start) (s', ts[i := t])"
    by (rule reach_step [OF 2(3) piece [OF i]])
  then show ?case using 2(1) [OF i(1,2,3) refl] rest by blast
qed

section \<open>Reasoning about one thread at a time\<close>

definition stable :: "('s \<Rightarrow> 's \<Rightarrow> bool) \<Rightarrow> ('s \<Rightarrow> bool) \<Rightarrow> bool" where
  "stable rely K \<longleftrightarrow> (\<forall>s s'. rely s s' \<longrightarrow> K s \<longrightarrow> K s')"

inductive guarded ::
  "('s \<Rightarrow> bool) \<Rightarrow> ('s \<Rightarrow> 's \<Rightarrow> bool) \<Rightarrow> (cpp_error \<Rightarrow> bool) \<Rightarrow> ('s \<Rightarrow> bool) \<Rightarrow> 's thread \<Rightarrow> bool"
  for invar :: "'s \<Rightarrow> bool" and rely :: "'s \<Rightarrow> 's \<Rightarrow> bool" and bad :: "cpp_error \<Rightarrow> bool" where
  guarded_Finished: "guarded invar rely bad K Finished"
| guarded_Atomic: "stable rely K \<Longrightarrow> (\<And>s e. invar s \<Longrightarrow> K s \<Longrightarrow> f s = Inl e \<Longrightarrow> bad e) \<Longrightarrow>
    (\<And>s t s'. invar s \<Longrightarrow> K s \<Longrightarrow> f s = Inr (t, s') \<Longrightarrow>
      invar s' \<and> rely s s' \<and> (\<exists>K'. K' s' \<and> guarded invar rely bad K' t)) \<Longrightarrow>
    guarded invar rely bad K (Atomic f)"

inductive_cases guarded_AtomicE: "guarded invar rely bad K (Atomic f)"

text \<open>The form in which the pieces of a thread are checked: by what the piece results in.\<close>

definition guarded_result ::
  "('s \<Rightarrow> bool) \<Rightarrow> ('s \<Rightarrow> 's \<Rightarrow> bool) \<Rightarrow> (cpp_error \<Rightarrow> bool) \<Rightarrow> 's \<Rightarrow> ('s thread \<times> 's) res \<Rightarrow> bool" where
  "guarded_result invar rely bad s r \<longleftrightarrow>
     (case r of
        Inl e \<Rightarrow> bad e
      | Inr (t, s') \<Rightarrow> invar s' \<and> rely s s' \<and> (\<exists>K. K s' \<and> guarded invar rely bad K t))"

lemma guarded_by_result:
  assumes "stable rely K" and "\<And>s. invar s \<Longrightarrow> K s \<Longrightarrow> guarded_result invar rely bad s (f s)"
  shows "guarded invar rely bad K (Atomic f)"
proof (rule guarded_Atomic [OF assms(1)])
  show "bad e" if "invar s" "K s" "f s = Inl e" for s e
    using assms(2) [OF that(1,2)] that(3) by (simp add: guarded_result_def)
  show "invar s' \<and> rely s s' \<and> (\<exists>K'. K' s' \<and> guarded invar rely bad K' t)"
    if "invar s" "K s" "f s = Inr (t, s')" for s t s'
    using assms(2) [OF that(1,2)] that(3) by (simp add: guarded_result_def)
qed

lemma guarded_resultI:
  assumes "invar s'" and "rely s s'" and "K s'" and "guarded invar rely bad K t"
  shows "guarded_result invar rely bad s (Inr (t, s'))"
  using assms unfolding guarded_result_def by auto

lemma guarded_result_ends:
  "invar s' \<Longrightarrow> rely s s' \<Longrightarrow> guarded_result invar rely bad s (Inr (Finished, s'))"
  by (rule guarded_resultI [where K = "\<lambda>_. True"]) (auto intro: guarded_Finished)

lemma guarded_result_fails: "bad e \<Longrightarrow> guarded_result invar rely bad s (Inl e)"
  by (simp add: guarded_result_def)

text \<open>A guarded thread that runs alone keeps the invariant and fails only as allowed.\<close>

lemma guarded_run:
  assumes "guarded invar rely bad K t" and "invar s" and "K s"
  shows "case run t s of Inl e \<Rightarrow> bad e | Inr s' \<Rightarrow> invar s'"
  using assms
proof (induction K t arbitrary: s rule: guarded.induct)
  case (guarded_Finished K)
  then show ?case by simp
next
  case (guarded_Atomic K f)
  show ?case
  proof (cases "f s")
    case (Inl e)
    then show ?thesis using guarded_Atomic by simp
  next
    case (Inr r)
    obtain t s' where r: "r = (t, s')" by fastforce
    from guarded_Atomic(3) [OF guarded_Atomic(4,5) Inr [unfolded r]] Inr r show ?thesis by auto
  qed
qed

lemma guarded_survives:
  assumes "guarded invar rely bad K t" and "K s" and "rely s s'"
  shows "\<exists>K'. K' s' \<and> guarded invar rely bad K' t"
proof (cases t)
  case Finished
  have "guarded invar rely bad (\<lambda>_. True) t" unfolding Finished by (rule guarded_Finished)
  then show ?thesis by (intro exI [of _ "\<lambda>_. True"] conjI TrueI)
next
  case (Atomic f)
  then have "stable rely K" using assms(1) by (auto elim: guarded_AtomicE)
  then have "K s'" using assms(2,3) unfolding stable_def by blast
  then show ?thesis using assms(1) by (intro exI [of _ K] conjI)
qed

lemma stable_True [simp]: "stable rely (\<lambda>_. True)"
  by (simp add: stable_def)

text \<open>
  The contract of a system of threads: every thread that is started, and every round of the
  looping one, is guarded from the state with the invariant alone.
\<close>

definition config_inv :: "('s \<Rightarrow> bool) \<Rightarrow> ('s \<Rightarrow> 's \<Rightarrow> bool) \<Rightarrow> (cpp_error \<Rightarrow> bool) \<Rightarrow> 's config \<Rightarrow> bool" where
  "config_inv invar rely bad c \<longleftrightarrow> invar (fst c) \<and>
     (\<forall>t \<in> set (snd c). \<exists>K. K (fst c) \<and> guarded invar rely bad K t)"

locale thread_system =
  fixes invar :: "'s \<Rightarrow> bool" and rely :: "'s \<Rightarrow> 's \<Rightarrow> bool" and bad :: "cpp_error \<Rightarrow> bool"
    and init :: "'s config \<Rightarrow> bool" and looping :: "'s thread \<Rightarrow> bool" and start :: "'s thread \<Rightarrow> bool"
  assumes init_inv: "init c \<Longrightarrow> invar (fst c) \<and> set (snd c) \<subseteq> {Finished}"
    and round_guarded: "looping t \<Longrightarrow> guarded invar rely bad (\<lambda>_. True) t"
    and start_guarded: "start t \<Longrightarrow> guarded invar rely bad (\<lambda>_. True) t"
begin

lemma piece_inv:
  assumes "config_inv invar rely bad (s, ts)" and "i < length ts" and "ts ! i = Atomic f" and "f s = Inr (t, s')"
  shows "config_inv invar rely bad (s', ts[i := t])"
proof -
  have invar: "invar s" and th: "\<And>t. t \<in> set ts \<Longrightarrow> \<exists>K. K s \<and> guarded invar rely bad K t"
    using assms(1) by (auto simp: config_inv_def)
  have "Atomic f \<in> set ts" using assms(2,3) by (metis nth_mem)
  then obtain K where "K s" "guarded invar rely bad K (Atomic f)" using th by blast
  then have s': "invar s'" "rely s s'" "\<exists>K'. K' s' \<and> guarded invar rely bad K' t"
    using invar assms(4) by (auto elim!: guarded_AtomicE)
  have "\<exists>K. K s' \<and> guarded invar rely bad K u" if "u \<in> set ts" for u
  proof -
    obtain K where "K s" "guarded invar rely bad K u" using th \<open>u \<in> set ts\<close> by blast
    then show ?thesis by (intro guarded_survives [of invar rely bad K u s s', OF _ _ s'(2)])
  qed
  then show ?thesis
    using s'(1,3) by (auto simp: config_inv_def dest!: set_update_subset_insert [THEN subsetD])
qed

lemma config_reachable: "reachable init (interleave looping start) c \<Longrightarrow> config_inv invar rely bad c"
proof (induction rule: reachable.induct)
  case (reach_init c)
  then show ?case using init_inv [of c] guarded_Finished by (fastforce simp: config_inv_def)
next
  case (reach_step c d)
  from reach_step(2) show ?case
  proof (cases rule: interleave.cases)
    case (piece i ts f s t s')
    then show ?thesis using piece_inv reach_step(3) by blast
  next
    case (started t s ts)
    then show ?thesis using reach_step(3) start_guarded [OF started(3)] by (auto simp: config_inv_def)
  next
    case (looped t s ts)
    then show ?thesis using reach_step(3) round_guarded [OF looped(3)] by (auto simp: config_inv_def)
  qed
qed

lemma reachable_inv: "reachable init (interleave looping start) c \<Longrightarrow> invar (fst c)"
  by (drule config_reachable) (simp add: config_inv_def)

lemma reachable_failures: "reachable init (interleave looping start) c \<Longrightarrow> e \<in> failures c \<Longrightarrow> bad e"
  by (drule config_reachable) (auto simp: config_inv_def failures_def elim!: guarded_AtomicE)

end

end
