(* ===== verification/Threads.thy ===== *)
theory Threads
  imports Server Resumption
begin

text \<open>
  The message handler and the worker as sequences of atomic pieces (\<open>source/server/server.cpp\<close>,
  \<open>ReplicaManager.cpp\<close>, \<open>ProfileManager.cpp\<close>).  \<open>Listen\<close> starts a thread for every datagram; the
  managers lock a mutex for each of their operations only, and the sequence counter, the session
  pointers, the follower lists and the confirmation buffer are not protected at all.  A piece is an
  operation of a manager, one access to the counter (\<open>lastSeqn++\<close> is a load and a store), one
  access to the buffer, one datagram, one round of a loop over a shared vector.

  Four loops run over a shared vector without its mutex: \<open>GetConnectedUsers\<close> and \<open>Sync\<close> over the
  profiles, \<open>Confirm\<close> over the containers of the buffer, and the worker over the addresses of a
  session.  Their iterators are taken before the first round; a \<open>push_back\<close>, \<open>emplace_back\<close> or
  \<open>erase\<close> of another thread before the loop has ended invalidates them, and the next use is
  \<open>DanglingIterator\<close>.  Profiles and containers are only ever added, so that the size of these
  vectors tells whether they changed; for the addresses of a session the contents are compared.
  The worker holds the mutex of the queue during a round, so that no handler sees the queue between
  taking a notification and putting it back.  The file that \<open>Sync\<close> writes is stored in one piece.

  The theorem at the end says that these sequences are the handlers: executed alone they give
  exactly the results of \<open>MessageHandler\<close> and \<open>Worker_round\<close>, failures included.
\<close>

section \<open>Replication\<close>

fun increments :: "nat \<Rightarrow> Server thread \<Rightarrow> Server thread" where
  "increments 0 k = k"
| "increments (Suc n) k =
     Atomic (\<lambda>s. let v = lastSeqn s in
       Inr (Atomic (\<lambda>s. Inr (increments n k, s\<lparr>lastSeqn := v + 1\<rparr>)), s))"

fun send_copies :: "Os \<Rightarrow> u64 \<Rightarrow> Peer list \<Rightarrow> nat \<Rightarrow> Packet \<Rightarrow> Server thread" where
  "send_copies os lastSeqnTemp [] i message = Finished"
| "send_copies os lastSeqnTemp (peer # ps) i message =
     (let message' = message\<lparr>seqn := lastSeqnTemp + of_nat i\<rparr> in
      Atomic (\<lambda>s. res_bind (socket_send os (GetSocketAddress peer) message' s)
        (\<lambda>(r, s'). Inr (send_copies os lastSeqnTemp ps (Suc i) message', s'))))"

definition push_pending ::
  "Os \<Rightarrow> u64 \<Rightarrow> u64 \<Rightarrow> Peer list \<Rightarrow> Packet \<Rightarrow> SocketAddress \<Rightarrow> Server thread" where
  "push_pending os n lastSeqnTemp secondaries message a =
     Atomic (\<lambda>s. case confirmationBuffer (replicaManager s) of
         None \<Rightarrow> Inl NullDereference
       | Some buffer \<Rightarrow>
           (let messages = [BaseMessage2 n message, BaseMessage2 (n + 1) message, BaseMessage2 (n + 2) message]
            in Inr (send_copies os lastSeqnTemp secondaries 0 message,
                 s\<lparr>replicaManager := (replicaManager s)\<lparr>confirmationBuffer :=
                      Some (Push3 messages (seqn message) a buffer)\<rparr>\<rparr>)))"

definition broadcast_thread :: "Os \<Rightarrow> Packet \<Rightarrow> SocketAddress \<Rightarrow> Server thread" where
  "broadcast_thread os message a =
     Atomic (\<lambda>s. let secondaries = GetSecondaryReplicas (replicaManager s); n = GetLastSeqn s in
       Inr (Atomic (\<lambda>s. let lastSeqnTemp = GetLastSeqn s in
              Inr (increments 3 (push_pending os n lastSeqnTemp secondaries message a), s)), s))"

text \<open>
  \<open>Confirm\<close>: a round marks the entries of one container and calls back when it is complete.  The
  arguments are the size of the buffer when the loop started and the number of rounds left.
\<close>

definition confirm_container :: "u64 \<Rightarrow> ConfirmableContainer \<Rightarrow> ConfirmableContainer" where
  "confirm_container k c = c\<lparr>content := fst (confirm_items k (content c) 0)\<rparr>"

fun confirm_rounds :: "Os \<Rightarrow> u64 \<Rightarrow> nat \<Rightarrow> nat \<Rightarrow> Server thread" where
  "confirm_rounds os k n 0 =
     Atomic (\<lambda>s. case confirmationBuffer (replicaManager s) of
         None \<Rightarrow> Inl NullDereference
       | Some buffer \<Rightarrow> if length buffer = n then Inr (Finished, s) else Inl DanglingIterator)"
| "confirm_rounds os k n (Suc r) =
     Atomic (\<lambda>s. case confirmationBuffer (replicaManager s) of
         None \<Rightarrow> Inl NullDereference
       | Some buffer \<Rightarrow>
           if length buffer = n
           then (let container = confirm_container k (buffer ! (n - Suc r));
                     s1 = s\<lparr>replicaManager := (replicaManager s)\<lparr>confirmationBuffer :=
                            Some (buffer[n - Suc r := container])\<rparr>\<rparr>
                 in res_bind (if ContainerConfirmed container then confirmation_callback os container s1 else Inr s1)
                      (\<lambda>s2. Inr (confirm_rounds os k n r, s2)))
           else Inl DanglingIterator)"

definition confirm_thread :: "Os \<Rightarrow> u64 \<Rightarrow> Server thread" where
  "confirm_thread os k =
     Atomic (\<lambda>s. if IsPrimary (replicaManager s)
       then (case confirmationBuffer (replicaManager s) of
               None \<Rightarrow> Inl NullDereference
             | Some buffer \<Rightarrow> Inr (confirm_rounds os k (length buffer) (length buffer), s))
       else res_bind (GetPrimaryReplica (replicaManager s)) (\<lambda>primaryReplica.
              res_bind (socket_send os (GetSocketAddress primaryReplica)
                  (MakeConfirmStateChangeMessage (os_time os) k) s)
                (\<lambda>(r, s'). Inr (Finished, s'))))"

definition replicate_thread :: "Os \<Rightarrow> Packet \<Rightarrow> SocketAddress \<Rightarrow> Server thread" where
  "replicate_thread os message a =
     Atomic (\<lambda>s. Inr (if IsPrimary (replicaManager s) then broadcast_thread os message a
                      else confirm_thread os (seqn message), s))"

section \<open>The cases of the handler\<close>

text \<open>
  \<open>GetConnectedUsers\<close>: a round looks at one profile.  The arguments are the size of the vector when
  the loop started, the excluded profile, the profiles left and the names found; the calling thread
  continues with the result.
\<close>

fun users_rounds :: "nat \<Rightarrow> nat \<Rightarrow> nat list \<Rightarrow> string list \<Rightarrow> (string list \<Rightarrow> Server thread) \<Rightarrow> Server thread" where
  "users_rounds n exclude [] temp k =
     Atomic (\<lambda>s. if length (profiles (profileManager s)) = n then Inr (k temp, s) else Inl DanglingIterator)"
| "users_rounds n exclude (user # us) temp k =
     Atomic (\<lambda>s. if length (profiles (profileManager s)) = n
       then (if user \<noteq> exclude
             then res_bind (live_sockets (GetSession user (profileManager s)) (sessionManager s)) (\<lambda>ss.
                    Inr (users_rounds n exclude us
                      (if ss \<noteq> [] then temp @ [GetHandle user (profileManager s)] else temp) k, s))
             else Inr (users_rounds n exclude us temp k, s))
       else Inl DanglingIterator)"

definition users_thread :: "nat \<Rightarrow> (string list \<Rightarrow> Server thread) \<Rightarrow> Server thread" where
  "users_thread exclude k =
     Atomic (\<lambda>s. let us = profiles (profileManager s) in Inr (users_rounds (length us) exclude us [] k, s))"

text \<open>\<open>Sync\<close>: nothing is read when the file cannot be opened.\<close>

definition sync_thread :: "Server thread \<Rightarrow> Server thread" where
  "sync_thread k =
     Atomic (\<lambda>s. if writable (profileManager s)
       then (let n = length (profiles (profileManager s)) in
             Inr (Atomic (\<lambda>s. if length (profiles (profileManager s)) = n
                    then Inr (k, s\<lparr>profileManager := Sync (profileManager s)\<rparr>)
                    else Inl DanglingIterator), s))
       else Inr (k, s))"

definition connect_list :: "Os \<Rightarrow> Packet \<Rightarrow> SocketAddress \<Rightarrow> nat \<Rightarrow> Server thread" where
  "connect_list os message a profile = users_thread profile (\<lambda>users. replicate_thread os message a)"

definition connect_set :: "Os \<Rightarrow> Packet \<Rightarrow> SocketAddress \<Rightarrow> nat \<Rightarrow> nat \<Rightarrow> Server thread" where
  "connect_set os message a profile q =
     Atomic (\<lambda>s. Inr (connect_list os message a profile,
       s\<lparr>profileManager := SetSession profile (SessionAt q) (profileManager s)\<rparr>))"

definition connect_session :: "Os \<Rightarrow> Packet \<Rightarrow> SocketAddress \<Rightarrow> nat \<Rightarrow> Server thread" where
  "connect_session os message a profile =
     Atomic (\<lambda>s. let (ses, sm) = StartSession (GetHandle profile (profileManager s)) a (sessionManager s) in
       Inr (case ses of Some q \<Rightarrow> connect_set os message a profile q | None \<Rightarrow> replicate_thread os message a,
            s\<lparr>sessionManager := sm\<rparr>))"

text \<open>\<open>NewProfile\<close>: the profile is pushed under the mutex, the file is written after it is released.\<close>

definition connect_new :: "Os \<Rightarrow> Packet \<Rightarrow> SocketAddress \<Rightarrow> string \<Rightarrow> Server thread" where
  "connect_new os message a username =
     Atomic (\<lambda>s. let (profile, pm) = push_profile (Profile2 username) (profileManager s) in
       Inr (sync_thread (connect_session os message a profile), s\<lparr>profileManager := pm\<rparr>))"

definition connect_thread :: "Os \<Rightarrow> Packet \<Rightarrow> SocketAddress \<Rightarrow> Server thread" where
  "connect_thread os message a =
     Atomic (\<lambda>s. res_bind (packet_text message) (\<lambda>username.
       Inr (case GetProfileByName username (profileManager s) of
              Some profile \<Rightarrow> connect_session os message a profile
            | None \<Rightarrow> connect_new os message a username, s)))"

definition disconnect_thread :: "Packet \<Rightarrow> SocketAddress \<Rightarrow> Server thread" where
  "disconnect_thread message a =
     Atomic (\<lambda>s. res_bind (packet_text message) (\<lambda>username.
       Inr (case GetProfileByName username (profileManager s) of
              Some profile \<Rightarrow>
                Atomic (\<lambda>s. let (ended, sm) = EndSession (GetHandle profile (profileManager s)) a (sessionManager s)
                  in Inr (Finished, s\<lparr>sessionManager := sm\<rparr>))
            | None \<Rightarrow> Finished, s)))"

text \<open>\<open>AddFollower\<close>: the lookup is locked, the list of followers and the file are not.\<close>

definition push_follower :: "nat \<Rightarrow> nat \<Rightarrow> Server thread" where
  "push_follower profile pProfile =
     Atomic (\<lambda>s. let pm = profileManager s; pr = profileHeap pm ! profile in
       if pProfile \<notin> set (GetFollowers profile pm)
       then Inr (sync_thread Finished,
              s\<lparr>profileManager := pm\<lparr>profileHeap := (profileHeap pm)
                  [profile := pr\<lparr>followers := followers pr @ [pProfile]\<rparr>]\<rparr>\<rparr>)
       else Inr (Finished, s))"

definition add_follower_thread :: "nat \<Rightarrow> string \<Rightarrow> Server thread" where
  "add_follower_thread profile username =
     Atomic (\<lambda>s. case GetProfileByName username (profileManager s) of
         Some pProfile \<Rightarrow> Inr (push_follower profile pProfile, s)
       | None \<Rightarrow> Inl MissingReturn)"

definition follow_thread :: "Packet \<Rightarrow> SocketAddress \<Rightarrow> Server thread" where
  "follow_thread message a =
     Atomic (\<lambda>s. res_bind (packet_text message) (\<lambda>usernameToFollow.
       Inr (case GetUserNameByAddressAndIP a (sessionManager s) of
              Some username \<Rightarrow>
                Atomic (\<lambda>s. Inr (case GetProfileByName usernameToFollow (profileManager s) of
                    Some profile \<Rightarrow> if usernameToFollow = username then Finished
                                 else add_follower_thread profile username
                  | None \<Rightarrow> Finished, s))
            | None \<Rightarrow> Finished, s)))"

fun push_notifications :: "string \<Rightarrow> Packet \<Rightarrow> nat list \<Rightarrow> Server thread" where
  "push_notifications username message [] = Finished"
| "push_notifications username message (follower # fs) =
     Atomic (\<lambda>s. res_bind (packet_text message) (\<lambda>b.
       Inr (push_notifications username message fs,
            s\<lparr>notificationQueue := notificationQueue s @ [PendingNotification_new username b follower]\<rparr>)))"

definition send_thread :: "Packet \<Rightarrow> SocketAddress \<Rightarrow> Server thread" where
  "send_thread message a =
     Atomic (\<lambda>s. Inr (case GetUserNameByAddressAndIP a (sessionManager s) of
         Some username \<Rightarrow>
           Atomic (\<lambda>s. Inr (case GetProfileByName username (profileManager s) of
               Some profile \<Rightarrow>
                 Atomic (\<lambda>s. Inr (push_notifications username message (GetFollowers profile (profileManager s)), s))
             | None \<Rightarrow> Finished, s))
       | None \<Rightarrow> Finished, s))"

definition user_info_thread :: "SocketAddress \<Rightarrow> Server thread" where
  "user_info_thread a =
     Atomic (\<lambda>s. Inr (case GetUserNameByAddressAndIP a (sessionManager s) of
         Some username \<Rightarrow>
           Atomic (\<lambda>s. Inr (case GetProfileByName username (profileManager s) of
               Some profile \<Rightarrow> users_thread profile (\<lambda>users.
                 Atomic (\<lambda>s. let response = user_info_text profile users (profileManager s) in Inr (Finished, s)))
             | None \<Rightarrow> Finished, s))
       | None \<Rightarrow> Finished, s))"

definition handler_thread :: "Os \<Rightarrow> Packet \<Rightarrow> SocketAddress \<Rightarrow> Server thread" where
  "handler_thread os message a =
     (if ptype message = PACKET_CONNECT_CMD then connect_thread os message a
      else if ptype message = PACKET_DISCONNECT_CMD then disconnect_thread message a
      else if ptype message = PACKET_FOLLOW_CMD then follow_thread message a
      else if ptype message = PACKET_SEND_CMD then send_thread message a
      else if ptype message = PACKET_REQUEST_USER_INFO then user_info_thread a
      else if ptype message = PACKET_CONFIRM_STATE_CHANGE then confirm_thread os (seqn message)
      else Atomic (\<lambda>s. res_bind (TypeToStr (ptype message)) (\<lambda>_. Inr (Finished, s))))"

section \<open>The worker\<close>

text \<open>
  The loop over \<open>session->sockets\<close>: the session, the addresses when the loop started, and those
  left.  A round copies the next address, advances the counter and sends.
\<close>

fun notify_thread ::
  "Os \<Rightarrow> PendingNotification \<Rightarrow> nat \<Rightarrow> SocketAddress list \<Rightarrow> SocketAddress list \<Rightarrow> Server thread" where
  "notify_thread os n q vs [] =
     Atomic (\<lambda>s. if sockets (sessionHeap (sessionManager s) ! q) = vs then Inr (Finished, s) else Inl DanglingIterator)"
| "notify_thread os n q vs (a # ss) =
     Atomic (\<lambda>s. if sockets (sessionHeap (sessionManager s) ! q) = vs
       then (let v = lastSeqn s in
             Inr (Atomic (\<lambda>s. Inr (Atomic (\<lambda>s.
                    res_bind (MakeNotification (os_time os) (v + 1) (pn_body n) (senderUsername n)) (\<lambda>p.
                      res_bind (Reply os a p s) (\<lambda>s'. Inr (notify_thread os n q vs ss, s')))),
                  s\<lparr>lastSeqn := v + 1\<rparr>)), s))
       else Inl DanglingIterator)"

definition worker_thread :: "Os \<Rightarrow> Server thread" where
  "worker_thread os =
     Atomic (\<lambda>s. case notificationQueue s of
         [] \<Rightarrow> Inr (Finished, s)
       | n # ns \<Rightarrow>
           (let s1 = s\<lparr>notificationQueue := ns\<rparr> in
            case GetSession (recipient n) (profileManager s1) of
              Indeterminate \<Rightarrow> Inl UninitialisedRead
            | NullSession \<Rightarrow> Inr (Finished, s1\<lparr>notificationQueue := notificationQueue s1 @ [n]\<rparr>)
            | SessionAt q \<Rightarrow>
                if length (sockets (sessionHeap (sessionManager s1) ! q)) > 0
                then Inr (Atomic (\<lambda>s. let ss = sockets (sessionHeap (sessionManager s) ! q) in
                       Inr (notify_thread os n q ss ss, s)), s1)
                else Inr (Finished, s1\<lparr>notificationQueue := notificationQueue s1 @ [n]\<rparr>)))"

section \<open>Alone, the pieces are the handlers\<close>

lemma run_increments: "run (increments n k) s = run k (s\<lparr>lastSeqn := lastSeqn s + of_nat n\<rparr>)"
  by (induction n arbitrary: s) (auto simp: Let_def add.assoc)

lemma run_send_copies:
  "run (send_copies os t ps i m) s = broadcast_loop os t ps i m s"
  by (induction ps arbitrary: i m s) (auto simp: Let_def res_bind_assoc split_def)

lemma socket_send_frame:
  "socket_send os a p (s\<lparr>replicaManager := rm\<rparr>) =
    res_bind (socket_send os a p s) (\<lambda>(r, s'). Inr (r, s'\<lparr>replicaManager := rm\<rparr>))"
  by (cases "Send os (srv_socket s) a p") (auto simp: socket_send_def)

lemma broadcast_loop_frame:
  "broadcast_loop os t ps i m (s\<lparr>replicaManager := rm\<rparr>) =
    res_bind (broadcast_loop os t ps i m s) (\<lambda>s'. Inr (s'\<lparr>replicaManager := rm\<rparr>))"
proof (induction ps arbitrary: i m s)
  case Nil
  then show ?case by simp
next
  case (Cons p ps)
  then show ?case
    by (cases "socket_send os (GetSocketAddress p) (m\<lparr>seqn := t + of_nat i\<rparr>) s")
      (auto simp: Let_def socket_send_frame)
qed

lemma run_broadcast:
  "run (broadcast_thread os m a) s =
    res_bind (BroadcastToSecondaries os m a (replicaManager s) s) (\<lambda>(rm, s'). Inr (s'\<lparr>replicaManager := rm\<rparr>))"
proof (cases "confirmationBuffer (replicaManager s)")
  case None
  then show ?thesis
    by (simp add: broadcast_thread_def push_pending_def BroadcastToSecondaries_def Let_def run_increments)
next
  case (Some b)
  have "IncrementSeqn (IncrementSeqn (IncrementSeqn s)) = s\<lparr>lastSeqn := lastSeqn s + 3\<rparr>"
    by (simp add: IncrementSeqn_def add.assoc)
  then show ?thesis
    using Some
    by (simp add: broadcast_thread_def push_pending_def BroadcastToSecondaries_def Let_def run_increments
        run_send_copies broadcast_loop_frame res_bind_assoc GetLastSeqn_def)
qed

lemma callback_frame:
  "confirmation_callback os c (s\<lparr>replicaManager := rm\<rparr>) =
    res_bind (confirmation_callback os c s) (\<lambda>s'. Inr (s'\<lparr>replicaManager := rm\<rparr>))"
  by (cases "content c")
    (auto simp: confirmation_callback_def socket_send_frame res_bind_assoc split_def split: option.split intro!: res_bind_cong)

lemma callbacks_frame:
  "res_fold (call_back (Some (confirmation_callback os))) cs (s\<lparr>replicaManager := rm\<rparr>) =
    res_bind (res_fold (call_back (Some (confirmation_callback os))) cs s) (\<lambda>s'. Inr (s'\<lparr>replicaManager := rm\<rparr>))"
proof (induction cs arbitrary: s)
  case Nil
  then show ?case by simp
next
  case (Cons c cs)
  then show ?case
    by (cases "confirmation_callback os c s") (simp_all add: call_back_def callback_frame)
qed

lemma confirm_container_mark: "confirm_container k c = mark k c"
  by (simp add: confirm_container_def mark_def confirm_items_eq)

text \<open>The containers before the current one are marked, the others are still to be treated.\<close>

lemma run_confirm_rounds:
  assumes "confirmationBuffer (replicaManager s) = Some (xs @ ys)"
  shows "run (confirm_rounds os k (length xs + length ys) (length ys)) s =
    res_bind (res_fold (call_back (Some (confirmation_callback os))) (filter ContainerConfirmed (map (mark k) ys)) s)
      (\<lambda>s'. Inr (s'\<lparr>replicaManager := (replicaManager s)\<lparr>confirmationBuffer := Some (xs @ map (mark k) ys)\<rparr>\<rparr>))"
  using assms
proof (induction ys arbitrary: xs s)
  case Nil
  then show ?case by simp
next
  case (Cons y ys)
  let ?rm = "(replicaManager s)\<lparr>confirmationBuffer := Some (xs @ mark k y # ys)\<rparr>"
  let ?cb = "call_back (Some (confirmation_callback os))"
  have step: "run (confirm_rounds os k (length xs + length (y # ys)) (length (y # ys))) s =
      res_bind (if ContainerConfirmed (mark k y) then confirmation_callback os (mark k y) (s\<lparr>replicaManager := ?rm\<rparr>)
                else Inr (s\<lparr>replicaManager := ?rm\<rparr>)) (run (confirm_rounds os k (Suc (length xs + length ys)) (length ys)))"
    using Cons.prems by (simp add: Let_def confirm_container_mark res_bind_assoc list_update_append)
  have rest: "run (confirm_rounds os k (Suc (length xs + length ys)) (length ys)) (t\<lparr>replicaManager := ?rm\<rparr>) =
      res_bind (res_fold ?cb (filter ContainerConfirmed (map (mark k) ys)) (t\<lparr>replicaManager := ?rm\<rparr>))
        (\<lambda>s'. Inr (s'\<lparr>replicaManager := (replicaManager s)\<lparr>confirmationBuffer := Some (xs @ mark k y # map (mark k) ys)\<rparr>\<rparr>))" for t
    using Cons.IH [of "t\<lparr>replicaManager := ?rm\<rparr>" "xs @ [mark k y]"] by simp
  show ?case unfolding step
    by (cases "ContainerConfirmed (mark k y)"; cases "confirmation_callback os (mark k y) s")
      (simp_all add: callback_frame rest callbacks_frame res_bind_assoc call_back_def [where c = "mark k y"] del: confirm_rounds.simps)
qed

lemma run_confirm:
  "run (confirm_thread os k) s =
    res_bind (ConfirmMessage os k (replicaManager s) s) (\<lambda>(rm, s'). Inr (s'\<lparr>replicaManager := rm\<rparr>))"
proof (cases "IsPrimary (replicaManager s)")
  case True
  then show ?thesis
    using run_confirm_rounds [of s "[]"]
    by (auto simp: confirm_thread_def ConfirmMessage_def Confirm_def Confirm_loop_eq res_bind_assoc split_def split: option.split)
next
  case False
  have "s'\<lparr>replicaManager := replicaManager s\<rparr> = s'" if "socket_send os a p s = Inr (r, s')" for a p r s'
    using that by (cases s) (auto simp: socket_send_def res_simps)
  with False show ?thesis
    by (auto simp: confirm_thread_def ConfirmMessage_def res_bind_assoc intro!: res_bind_cong)
qed

lemma run_users_rounds:
  assumes "n = length (profiles (profileManager s))"
  shows "run (users_rounds n p us temp k) s =
    res_bind (res_fold (\<lambda>user temp.
       if user \<noteq> p then res_bind (live_sockets (GetSession user (profileManager s)) (sessionManager s))
           (\<lambda>ss. if ss \<noteq> [] then Inr (temp @ [GetHandle user (profileManager s)]) else Inr temp)
       else Inr temp) us temp) (\<lambda>users. run (k users) s)"
  using assms by (induction us arbitrary: temp) (auto simp: res_bind_assoc if_distrib intro!: res_bind_cong)

lemma run_users:
  "run (users_thread p k) s =
    res_bind (GetConnectedUsers (Some p) (profileManager s) (sessionManager s)) (\<lambda>users. run (k users) s)"
  by (simp add: users_thread_def GetConnectedUsers_def Let_def run_users_rounds)

lemma run_sync: "run (sync_thread k) s = run k (s\<lparr>profileManager := Sync (profileManager s)\<rparr>)"
  by (auto simp: sync_thread_def Let_def Sync_def)

lemma run_replicate:
  "run (replicate_thread os m a) s = res_bind
     (if IsPrimary (replicaManager s) then BroadcastToSecondaries os m a (replicaManager s) s
      else ConfirmMessage os (seqn m) (replicaManager s) s) (\<lambda>(rm, s2). Inr (s2\<lparr>replicaManager := rm\<rparr>))"
  by (simp add: replicate_thread_def run_broadcast run_confirm)

lemma run_connect: "run (connect_thread os m a) s = handle_CONNECT os m a s"
proof (cases "packet_text m")
  case (Inr u)
  have ses: "run (connect_session os m a p) t =
      (let (ses, sm1) = StartSession (GetHandle p (profileManager t)) a (sessionManager t) in
       res_bind (case ses of
           Some q \<Rightarrow> (let pm2 = SetSession p (SessionAt q) (profileManager t)
             in res_bind (GetConnectedUsers (Some p) pm2 sm1) (\<lambda>users. Inr pm2))
         | None \<Rightarrow> Inr (profileManager t))
         (\<lambda>pm2. run (replicate_thread os m a) (t\<lparr>profileManager := pm2, sessionManager := sm1\<rparr>)))" for p t
    by (cases t) (simp add: connect_session_def connect_set_def connect_list_def run_users split_def Let_def res_bind_assoc
        split: option.split)
  show ?thesis
    using Inr
    by (auto simp: connect_thread_def connect_new_def handle_CONNECT_def NewProfile_def ses run_replicate run_sync
        split_def Let_def split: option.split intro!: res_bind_cong)
qed (simp add: connect_thread_def handle_CONNECT_def)

lemma run_follow: "run (follow_thread m a) s = handle_FOLLOW m a s"
  by (cases "packet_text m")
    (auto simp: follow_thread_def add_follower_thread_def push_follower_def handle_FOLLOW_def AddFollower_def Let_def run_sync
      split: option.split)

lemma run_push_notifications:
  "run (push_notifications u m fs) s = res_fold (\<lambda>follower s. res_bind (packet_text m) (\<lambda>b.
     Inr (s\<lparr>notificationQueue := notificationQueue s @ [PendingNotification_new u b follower]\<rparr>))) fs s"
  by (induction fs arbitrary: s) (auto simp: res_bind_assoc)

lemma Reply_sessions: "Reply os a p s = Inr s' \<Longrightarrow> sessionManager s' = sessionManager s"
  by (auto simp: Reply_def socket_send_def res_simps)

lemma run_notify:
  assumes "sockets (sessionHeap (sessionManager s) ! q) = vs"
  shows "run (notify_thread os n q vs ss) s = res_fold (notify os n) ss s"
  using assms
proof (induction ss arbitrary: s)
  case Nil
  then show ?case by simp
next
  case (Cons a ss)
  have "run (notify_thread os n q vs ss) s' = res_fold (notify os n) ss s'"
    if "Reply os a p (s\<lparr>lastSeqn := lastSeqn s + 1\<rparr>) = Inr s'" for p s'
    using Cons Reply_sessions [OF that] by simp
  moreover have "notify os n a s = res_bind (MakeNotification (os_time os) (lastSeqn s + 1) (pn_body n) (senderUsername n))
      (\<lambda>p. Reply os a p (s\<lparr>lastSeqn := lastSeqn s + 1\<rparr>))"
    by (simp add: notify_def Let_def IncrementSeqn_def)
  ultimately show ?case
    using Cons.prems by (auto simp: Let_def res_bind_assoc intro!: res_bind_cong)
qed

lemma run_handler: "run (handler_thread os m a) s = MessageHandler os m a s"
proof -
  have "run (disconnect_thread m a) s = handle_DISCONNECT m a s"
    by (cases "packet_text m") (auto simp: disconnect_thread_def handle_DISCONNECT_def split_def Let_def split: option.split)
  moreover have "run (send_thread m a) s = handle_SEND m a s"
    by (auto simp: send_thread_def handle_SEND_def run_push_notifications split: option.split)
  moreover have "run (user_info_thread a) s = handle_USER_INFO a s"
    by (auto simp: user_info_thread_def handle_USER_INFO_def user_info_response_def run_users res_bind_assoc split: option.split)
  ultimately show ?thesis
    by (simp add: handler_thread_def MessageHandler_def run_connect run_follow handle_CONFIRM_def run_confirm res_bind_assoc)
qed

lemma run_worker: "run (worker_thread os) s = Worker_round os s"
proof (cases "notificationQueue s")
  case (Cons n ns)
  then show ?thesis
    by (cases "GetSession (recipient n) (profileManager s)")
      (auto simp: worker_thread_def Worker_round_def live_sockets_def Let_def run_notify)
qed (simp add: worker_thread_def Worker_round_def)

section \<open>Properties\<close>

text \<open>
  C5.  The pieces are the handlers: a handler thread that runs alone does exactly what
  \<open>MessageHandler\<close> does, for every packet, sender and state, with the same failure when it fails;
  and the pieces of a worker round that runs alone do exactly what \<open>Worker_round\<close> does.
\<close>

theorem threads_refine:
  "run (handler_thread os m a) s = MessageHandler os m a s \<and> run (worker_thread os) s = Worker_round os s"
  by (simp only: run_handler run_worker)

end
