(* ===== verification/Interleaving.thy ===== *)
theory Interleaving
  imports Threads Server_Behaviour
begin

text \<open>
  The server with all its threads.  The handlers of \<open>Threads\<close>, any number of them at any point,
  and the rounds of the worker interleave at the granularity of their pieces.  The invariant that
  survives every interleaving has everything of \<open>server_inv\<close> except the uniqueness of handles, and
  bounds on the texts; with it the only failures any thread can have are the read of a session
  pointer that has not been set and the use of an iterator of a vector that another thread has
  changed.  These failures, and two profiles for one user, and two pending state changes with the
  same numbers, do happen: explicit schedules show them.
\<close>

section \<open>The shared state\<close>

text \<open>Names and posts as the clients send them; notifications built from them fit in a packet.\<close>

definition packet_fits :: "Packet \<Rightarrow> bool" where
  "packet_fits m \<longleftrightarrow> packet_ok m \<and>
     (\<forall>u. packet_text m = Inr u \<longrightarrow> length u \<le> (if ptype m = PACKET_SEND_CMD then 128 else 380))"

definition name_ok :: "string \<Rightarrow> bool" where
  "name_ok u \<longleftrightarrow> NUL \<notin> set u \<and> length u \<le> 380"

definition note_ok :: "PendingNotification \<Rightarrow> bool" where
  "note_ok n \<longleftrightarrow> name_ok (senderUsername n) \<and> NUL \<notin> set (pn_body n) \<and> length (pn_body n) \<le> 128"

definition shared_inv :: "Server \<Rightarrow> bool" where
  "shared_inv s \<longleftrightarrow> profile_inv (profileManager s) \<and> session_inv (sessionManager s) \<and>
     session_link (profileManager s) (sessionManager s) \<and> users_known (profileManager s) (sessionManager s) \<and>
     replica_inv (replicaManager s) \<and> has_primary (replicaManager s) \<and>
     (\<forall>p < length (profileHeap (profileManager s)). name_ok (GetHandle p (profileManager s))) \<and>
     (\<forall>n \<in> set (notificationQueue s). recipient n < length (profileHeap (profileManager s)) \<and> note_ok n)"

text \<open>What a thread relies on: profiles and sessions stay, with their names and owners.\<close>

definition grows :: "ProfileManager \<Rightarrow> SessionManager \<Rightarrow> ProfileManager \<Rightarrow> SessionManager \<Rightarrow> bool" where
  "grows pm sm pm' sm' \<longleftrightarrow>
     length (profileHeap pm) \<le> length (profileHeap pm') \<and> length (sessionHeap sm) \<le> length (sessionHeap sm') \<and>
     (\<forall>p < length (profileHeap pm). GetHandle p pm' = GetHandle p pm) \<and>
     (\<forall>q < length (sessionHeap sm). userHandle (sessionHeap sm' ! q) = userHandle (sessionHeap sm ! q))"

definition kept :: "Server \<Rightarrow> Server \<Rightarrow> bool" where
  "kept s s' \<longleftrightarrow> grows (profileManager s) (sessionManager s) (profileManager s') (sessionManager s') \<and>
     same_host (replicaManager s) (replicaManager s')"

text \<open>The failures that races cause.\<close>

definition race_failure :: "cpp_error \<Rightarrow> bool" where
  "race_failure e \<longleftrightarrow> e = UninitialisedRead \<or> e = DanglingIterator"

lemma race_failures [simp]: "race_failure UninitialisedRead" "race_failure DanglingIterator"
  by (simp_all add: race_failure_def)

abbreviation safe_thread :: "(Server \<Rightarrow> bool) \<Rightarrow> Server thread \<Rightarrow> bool" where
  "safe_thread \<equiv> guarded shared_inv kept race_failure"

abbreviation safe_result :: "Server \<Rightarrow> (Server thread \<times> Server) res \<Rightarrow> bool" where
  "safe_result \<equiv> guarded_result shared_inv kept race_failure"

lemmas safe_intros = guarded_resultI [where invar = shared_inv and rely = kept and bad = race_failure]

lemma grows_refl [simp]: "grows pm sm pm sm"
  by (simp add: grows_def)

lemma same_host_refl [simp]: "same_host rm rm"
  by (simp add: same_host_def)

lemma kept_refl [simp]: "kept s s"
  by (simp add: kept_def)

lemma shared_inv_frame [simp]:
  "shared_inv (s\<lparr>lastSeqn := n\<rparr>) = shared_inv s" "shared_inv (s\<lparr>sent := d\<rparr>) = shared_inv s"
  "kept s (s\<lparr>lastSeqn := n\<rparr>)" "kept s (s\<lparr>sent := d\<rparr>)" "kept s (s\<lparr>notificationQueue := q\<rparr>)"
  by (simp_all add: shared_inv_def kept_def)

lemma shared_inv_profiles:
  assumes "shared_inv s" and "profile_inv pm" and "grows (profileManager s) (sessionManager s) pm (sessionManager s)"
    and "session_link pm (sessionManager s)" and "\<forall>p < length (profileHeap pm). name_ok (GetHandle p pm)"
  shows "shared_inv (s\<lparr>profileManager := pm\<rparr>)" "kept s (s\<lparr>profileManager := pm\<rparr>)"
proof -
  have g: "length (profileHeap (profileManager s)) \<le> length (profileHeap pm)"
    "\<And>p. p < length (profileHeap (profileManager s)) \<Longrightarrow> GetHandle p pm = GetHandle p (profileManager s)"
    using assms(3) by (auto simp: grows_def)
  have "users_known pm (sessionManager s)"
    using assms(1) g unfolding shared_inv_def users_known_def by (metis less_le_trans)
  moreover have "\<forall>n \<in> set (notificationQueue s). recipient n < length (profileHeap pm) \<and> note_ok n"
    using assms(1) g(1) by (auto simp: shared_inv_def)
  ultimately show "shared_inv (s\<lparr>profileManager := pm\<rparr>)"
    using assms by (simp add: shared_inv_def)
qed (use assms(3) in \<open>simp add: kept_def\<close>)

lemma session_link_mono:
  assumes "session_link pm sm" and "grows pm sm pm sm'"
  shows "session_link pm sm'"
  using assms by (auto simp: session_link_def grows_def)

lemma shared_inv_sessions:
  assumes "shared_inv s" and "session_inv sm" and "grows (profileManager s) (sessionManager s) (profileManager s) sm"
    and "users_known (profileManager s) sm"
  shows "shared_inv (s\<lparr>sessionManager := sm\<rparr>)" "kept s (s\<lparr>sessionManager := sm\<rparr>)"
  using assms session_link_mono [OF _ assms(3)] by (simp_all add: shared_inv_def kept_def)

lemma shared_inv_replicas:
  assumes "shared_inv s" and "replica_inv rm" and "same_host (replicaManager s) rm"
  shows "shared_inv (s\<lparr>replicaManager := rm\<rparr>)" "kept s (s\<lparr>replicaManager := rm\<rparr>)"
  using assms by (simp_all add: shared_inv_def kept_def)

lemma shared_inv_queue:
  assumes "shared_inv s"
    and "\<forall>n \<in> set q. recipient n < length (profileHeap (profileManager s)) \<and> note_ok n"
  shows "shared_inv (s\<lparr>notificationQueue := q\<rparr>)"
  using assms by (simp add: shared_inv_def)

lemma packet_text_NUL: "packet_text m = Inr u \<Longrightarrow> NUL \<notin> set u"
  by (auto simp: packet_text_def string_of_array_def split: if_splits)

lemma packet_fits_text:
  assumes "packet_fits m"
  obtains u where "packet_text m = Inr u" "NUL \<notin> set u"
    "length u \<le> (if ptype m = PACKET_SEND_CMD then 128 else 380)"
  using assms packet_ok_text packet_text_NUL unfolding packet_fits_def by metis

lemma packet_fits_name:
  assumes "packet_fits m" and "ptype m \<noteq> PACKET_SEND_CMD"
  shows "\<exists>u. packet_text m = Inr u \<and> name_ok u"
  by (rule packet_fits_text [OF assms(1)]) (use assms(2) in \<open>simp add: name_ok_def\<close>)

lemma session_name_ok:
  assumes "shared_inv s" and "GetUserNameByAddressAndIP a (sessionManager s) = Some u"
  shows "name_ok u" "\<exists>p < length (profileHeap (profileManager s)). GetHandle p (profileManager s) = u"
proof -
  obtain q where "q < length (sessionHeap (sessionManager s))" "userHandle (sessionHeap (sessionManager s) ! q) = u"
    using GetUserName_session [OF _ assms(2)] assms(1) by (auto simp: shared_inv_def)
  then show "\<exists>p < length (profileHeap (profileManager s)). GetHandle p (profileManager s) = u"
    using assms(1) by (auto simp: shared_inv_def users_known_def)
  then show "name_ok u" using assms(1) by (auto simp: shared_inv_def)
qed

lemma connected_users_fails:
  "GetConnectedUsers x pm sm = Inl e \<Longrightarrow> e = UninitialisedRead"
  unfolding GetConnectedUsers_def
  by (erule res_fold_fails) (auto simp: res_simps live_sockets_def split: if_splits session_ref.splits)

section \<open>Every thread is safe\<close>

text \<open>Facts that survive what the other threads do.\<close>

lemma stable_facts [simp]:
  "stable kept (\<lambda>s. IsPrimary (replicaManager s))"
  "stable kept (\<lambda>s. p < length (profileHeap (profileManager s)))"
  "stable kept (\<lambda>s. set ps \<subseteq> {..<length (profileHeap (profileManager s))})"
  "stable kept (\<lambda>s. \<exists>p < length (profileHeap (profileManager s)). GetHandle p (profileManager s) = u)"
  "stable kept (\<lambda>s. p < length (profileHeap (profileManager s)) \<and> q < length (sessionHeap (sessionManager s)) \<and>
     userHandle (sessionHeap (sessionManager s) ! q) = GetHandle p (profileManager s))"
  by (auto simp: stable_def kept_def grows_def) (metis less_le_trans)

lemma stable_conj: "stable kept P \<Longrightarrow> stable kept Q \<Longrightarrow> stable kept (\<lambda>s. P s \<and> Q s)"
  by (simp add: stable_def)

lemma safe_send_copies:
  "ptype m = PACKET_CONNECT_CMD \<Longrightarrow> safe_thread (\<lambda>_. True) (send_copies os t ps i m)"
proof (induction ps arbitrary: i m)
  case Nil
  then show ?case by (simp add: guarded_Finished)
next
  case (Cons p ps)
  let ?m = "m\<lparr>seqn := t + of_nat i\<rparr>"
  show ?case unfolding send_copies.simps Let_def
  proof (rule guarded_by_result, simp)
    fix s :: Server assume s: "shared_inv s"
    obtain r out where "socket_send os (GetSocketAddress p) ?m s = Inr (r, s\<lparr>sent := out\<rparr>)"
      using socket_send_eq [of ?m os "GetSocketAddress p" s] Cons.prems by fastforce
    then have e: "res_bind (socket_send os (GetSocketAddress p) ?m s)
        (\<lambda>(r, s'). Inr (send_copies os t ps (Suc i) ?m, s')) = Inr (send_copies os t ps (Suc i) ?m, s\<lparr>sent := out\<rparr>)"
      by simp
    show "safe_result s (res_bind (socket_send os (GetSocketAddress p) ?m s)
        (\<lambda>(r, s'). Inr (send_copies os t ps (Suc i) ?m, s')))"
      unfolding e using s Cons by (intro safe_intros [where K = "\<lambda>_. True"]) simp_all
  qed
qed

lemma safe_increments:
  assumes "stable kept K" and "\<And>s n. K (s\<lparr>lastSeqn := n\<rparr>) = K s" and "safe_thread K k"
  shows "safe_thread K (increments n k)"
proof (induction n)
  case 0
  then show ?case using assms(3) by simp
next
  case (Suc n)
  then show ?case unfolding increments.simps Let_def
    by (intro guarded_by_result [OF assms(1)] safe_intros [where K = K]) (simp_all add: assms(2))
qed

lemma safe_push_pending:
  assumes "ptype m = PACKET_CONNECT_CMD"
  shows "safe_thread (\<lambda>s. IsPrimary (replicaManager s)) (push_pending os n t ps m a)"
  unfolding push_pending_def
proof (rule guarded_by_result, simp)
  fix s assume s: "shared_inv s" and p: "IsPrimary (replicaManager s)"
  let ?rm = "replicaManager s"
  obtain b where b: "confirmationBuffer ?rm = Some b" "list_all pending_ok b"
    using s p by (auto simp: shared_inv_def replica_inv_def split: option.splits)
  let ?b = "Push3 [BaseMessage2 n m, BaseMessage2 (n + 1) m, BaseMessage2 (n + 2) m] (seqn m) a b"
  have "list_all pending_ok ?b"
    using b(2) assms by (auto simp: Push3_def fresh_items_def pending_ok_def BaseMessage2_def)
  then have "replica_inv (?rm\<lparr>confirmationBuffer := Some ?b\<rparr>)" using p by (simp add: replica_inv_def)
  note r = shared_inv_replicas [OF s this]
  show "safe_result s (case confirmationBuffer ?rm of None \<Rightarrow> Inl NullDereference
      | Some buffer \<Rightarrow> let messages = [BaseMessage2 n m, BaseMessage2 (n + 1) m, BaseMessage2 (n + 2) m]
          in Inr (send_copies os t ps 0 m, s\<lparr>replicaManager := ?rm\<lparr>confirmationBuffer :=
            Some (Push3 messages (seqn m) a buffer)\<rparr>\<rparr>))"
    unfolding b(1) option.case Let_def
    by (rule safe_intros [where K = "\<lambda>_. True"]) (use r safe_send_copies [OF assms] in \<open>simp_all add: same_host_def\<close>)
qed

lemma safe_confirm_rounds:
  assumes "r \<le> n"
  shows "safe_thread (\<lambda>s. IsPrimary (replicaManager s)) (confirm_rounds os k n r)"
  using assms
proof (induction r)
  case 0
  have "safe_result s (case confirmationBuffer (replicaManager s) of None \<Rightarrow> Inl NullDereference
      | Some buffer \<Rightarrow> if length buffer = n then Inr (Finished, s) else Inl DanglingIterator)"
    if "shared_inv s" "IsPrimary (replicaManager s)" for s
    using that by (auto simp: shared_inv_def replica_inv_def guarded_result_fails
        intro!: guarded_result_ends split: option.split)
  then show ?case unfolding confirm_rounds.simps by (intro guarded_by_result stable_facts)
next
  case (Suc r)
  show ?case unfolding confirm_rounds.simps
  proof (rule guarded_by_result, rule stable_facts)
    fix s assume s: "shared_inv s" and p: "IsPrimary (replicaManager s)"
    obtain b where b: "confirmationBuffer (replicaManager s) = Some b" "list_all pending_ok b"
      using s p by (auto simp: shared_inv_def replica_inv_def split: option.splits)
    let ?c = "confirm_container k (b ! (n - Suc r))"
    let ?rm = "(replicaManager s)\<lparr>confirmationBuffer := Some (b[n - Suc r := ?c])\<rparr>"
    let ?r = "res_bind (if ContainerConfirmed ?c then confirmation_callback os ?c (s\<lparr>replicaManager := ?rm\<rparr>)
        else Inr (s\<lparr>replicaManager := ?rm\<rparr>)) (\<lambda>s2. Inr (confirm_rounds os k n r, s2))"
    have "safe_result s ?r" if n: "length b = n"
    proof -
      have c: "pending_ok ?c" using b(2) n Suc.prems by (simp add: confirm_container_mark list_all_length)
      have "list_all pending_ok (b[n - Suc r := ?c])"
        using b(2) c set_update_subset_insert [of b "n - Suc r" ?c] by (auto simp: list_all_iff)
      then have ri: "replica_inv ?rm" using p by (simp add: replica_inv_def)
      note f = shared_inv_replicas [OF s ri]
      have "\<exists>out. ?r = Inr (confirm_rounds os k n r, s\<lparr>replicaManager := ?rm, sent := out\<rparr>)"
      proof (cases "ContainerConfirmed ?c")
        case True
        then show ?thesis by (intro exI) (simp add: callback_pending [OF c])
      next
        case False
        then show ?thesis by (intro exI [of _ "sent s"]) simp
      qed
      then obtain out where out: "?r = Inr (confirm_rounds os k n r, s\<lparr>replicaManager := ?rm, sent := out\<rparr>)" by blast
      have "shared_inv (s\<lparr>replicaManager := ?rm, sent := out\<rparr>)" "kept s (s\<lparr>replicaManager := ?rm, sent := out\<rparr>)"
        using f by (simp_all add: same_host_def kept_def)
      then show ?thesis unfolding out
        by (rule safe_intros [where K = "\<lambda>s. IsPrimary (replicaManager s)"]) (use p Suc in simp_all)
    qed
    then show "safe_result s (case confirmationBuffer (replicaManager s) of None \<Rightarrow> Inl NullDereference
      | Some buffer \<Rightarrow> if length buffer = n
          then (let container = confirm_container k (buffer ! (n - Suc r));
                    s1 = s\<lparr>replicaManager := (replicaManager s)\<lparr>confirmationBuffer :=
                           Some (buffer[n - Suc r := container])\<rparr>\<rparr>
                in res_bind (if ContainerConfirmed container then confirmation_callback os container s1 else Inr s1)
                     (\<lambda>s2. Inr (confirm_rounds os k n r, s2)))
          else Inl DanglingIterator)"
      by (simp add: b(1) Let_def guarded_result_fails)
  qed
qed

lemma safe_confirm:
  "safe_thread (\<lambda>_. True) (confirm_thread os k)"
  unfolding confirm_thread_def
proof (rule guarded_by_result, simp)
  fix s assume s: "shared_inv s"
  let ?rm = "replicaManager s"
  let ?m = "MakeConfirmStateChangeMessage (os_time os) k"
  show "safe_result s (if IsPrimary ?rm
      then (case confirmationBuffer ?rm of None \<Rightarrow> Inl NullDereference
            | Some buffer \<Rightarrow> Inr (confirm_rounds os k (length buffer) (length buffer), s))
      else res_bind (GetPrimaryReplica ?rm) (\<lambda>primaryReplica.
             res_bind (socket_send os (GetSocketAddress primaryReplica) ?m s) (\<lambda>(r, s'). Inr (Finished, s'))))"
  proof (cases "IsPrimary ?rm")
    case True
    then obtain b where b: "confirmationBuffer ?rm = Some b"
      using s by (auto simp: shared_inv_def replica_inv_def split: option.splits)
    show ?thesis
      by (simp add: True b, rule safe_intros [where K = "\<lambda>s. IsPrimary (replicaManager s)"])
        (use s True safe_confirm_rounds in simp_all)
  next
    case False
    then obtain pr where pr: "GetPrimaryReplica ?rm = Inr pr"
      using s by (cases "List.find peer_primary (peers ?rm)")
        (auto simp: shared_inv_def has_primary_def GetPrimaryReplica_def find_None_iff list_ex_iff)
    obtain r out where "socket_send os (GetSocketAddress pr) ?m s = Inr (r, s\<lparr>sent := out\<rparr>)"
      using socket_send_eq [of ?m os "GetSocketAddress pr" s] by (fastforce simp: MakeConfirmStateChangeMessage_def)
    then show ?thesis using False pr s by (simp add: guarded_result_ends)
  qed
qed

lemma safe_replicate:
  assumes "ptype m = PACKET_CONNECT_CMD"
  shows "safe_thread (\<lambda>_. True) (replicate_thread os m a)"
proof -
  let ?P = "\<lambda>s :: Server. IsPrimary (replicaManager s)"
  have 1: "safe_thread ?P (increments 3 (push_pending os n t ps m a))" for n t ps
    by (rule safe_increments) (use safe_push_pending [OF assms] in simp_all)
  have 2: "safe_thread ?P (broadcast_thread os m a)"
    unfolding broadcast_thread_def Let_def
    by (intro guarded_by_result stable_facts safe_intros [where K = ?P] 1) simp_all
  show ?thesis unfolding replicate_thread_def
  proof (rule guarded_by_result, simp)
    fix s assume s: "shared_inv s"
    show "safe_result s (Inr (if ?P s then broadcast_thread os m a else confirm_thread os (seqn m), s))"
      by (cases "?P s") (use s 2 safe_confirm in \<open>auto intro: safe_intros [where K = ?P] safe_intros [where K = "\<lambda>_. True"]\<close>)
  qed
qed

text \<open>The managers' operations keep the invariant of the shared state.\<close>

lemma StartSession_shared:
  assumes "shared_inv s" and "p < length (profileHeap (profileManager s))"
    and "StartSession (GetHandle p (profileManager s)) a (sessionManager s) = (ses, sm)"
  shows "shared_inv (s\<lparr>sessionManager := sm\<rparr>)" "kept s (s\<lparr>sessionManager := sm\<rparr>)"
    "ses = Some q \<Longrightarrow> q < length (sessionHeap sm) \<and> userHandle (sessionHeap sm ! q) = GetHandle p (profileManager s)"
proof -
  have si: "session_inv (sessionManager s)" and uk: "users_known (profileManager s) (sessionManager s)"
    using assms(1) by (auto simp: shared_inv_def)
  note k = StartSession_known [OF si uk assms(2,3)]
  note heap = StartSession_heap [OF si, where h = "GetHandle p (profileManager s)" and a = a, unfolded assms(3) snd_conv]
  show "shared_inv (s\<lparr>sessionManager := sm\<rparr>)" "kept s (s\<lparr>sessionManager := sm\<rparr>)"
    using heap k(2) by (intro shared_inv_sessions [OF assms(1) k(1)]; simp add: grows_def)+
  show "ses = Some q \<Longrightarrow> q < length (sessionHeap sm) \<and> userHandle (sessionHeap sm ! q) = GetHandle p (profileManager s)"
    by (rule k(3))
qed

lemma EndSession_shared:
  assumes "shared_inv s"
  shows "shared_inv (s\<lparr>sessionManager := snd (EndSession h a (sessionManager s))\<rparr>)"
    "kept s (s\<lparr>sessionManager := snd (EndSession h a (sessionManager s))\<rparr>)"
proof -
  have "session_inv (snd (EndSession h a (sessionManager s)))"
    "users_known (profileManager s) (snd (EndSession h a (sessionManager s)))"
    using assms EndSession_inv by (auto simp: shared_inv_def users_known_def)
  then show "shared_inv (s\<lparr>sessionManager := snd (EndSession h a (sessionManager s))\<rparr>)"
    "kept s (s\<lparr>sessionManager := snd (EndSession h a (sessionManager s))\<rparr>)"
    by (intro shared_inv_sessions [OF assms]; simp add: grows_def)+
qed

lemma Sync_shared:
  assumes "shared_inv s"
  shows "shared_inv (s\<lparr>profileManager := Sync (profileManager s)\<rparr>)" "kept s (s\<lparr>profileManager := Sync (profileManager s)\<rparr>)"
  using assms by (simp_all add: shared_inv_def kept_def grows_def session_link_def users_known_def)

lemma push_profile_shared:
  assumes "shared_inv s" and "name_ok u" and "push_profile (Profile2 u) (profileManager s) = (p, pm)"
  shows "shared_inv (s\<lparr>profileManager := pm\<rparr>)" "kept s (s\<lparr>profileManager := pm\<rparr>)" "p < length (profileHeap pm)"
proof -
  let ?pm = "profileManager s"
  have pi: "profile_inv ?pm" and sl: "session_link ?pm (sessionManager s)" using assms(1) by (auto simp: shared_inv_def)
  have heap: "p = length (profileHeap ?pm)" "profileHeap pm = profileHeap ?pm @ [Profile2 u]"
    using assms(3) by (auto simp: push_profile_def Let_def)
  have gets: "GetHandle p pm = u" "GetSession p pm = Indeterminate"
    "\<And>q. q < p \<Longrightarrow> GetHandle q pm = GetHandle q ?pm \<and> GetSession q pm = GetSession q ?pm"
    by (simp_all add: heap GetHandle_def GetSession_def Profile2_def nth_append)
  have "profile_inv pm" using push_profile_inv [OF pi, of "Profile2 u"] assms(3) by (simp add: Profile2_def)
  moreover have "session_link pm (sessionManager s)"
    using sl gets heap by (auto simp: session_link_def less_Suc_eq)
  moreover have "\<forall>q < length (profileHeap pm). name_ok (GetHandle q pm)"
    using assms(1,2) gets heap by (auto simp: shared_inv_def less_Suc_eq)
  ultimately show "shared_inv (s\<lparr>profileManager := pm\<rparr>)" "kept s (s\<lparr>profileManager := pm\<rparr>)"
    using gets heap by (intro shared_inv_profiles [OF assms(1)]; simp add: grows_def)+
  show "p < length (profileHeap pm)" by (simp add: heap)
qed

lemma SetSession_shared:
  assumes "shared_inv s" and "p < length (profileHeap (profileManager s))"
    and "q < length (sessionHeap (sessionManager s))"
    and "userHandle (sessionHeap (sessionManager s) ! q) = GetHandle p (profileManager s)"
  shows "shared_inv (s\<lparr>profileManager := SetSession p (SessionAt q) (profileManager s)\<rparr>)"
    "kept s (s\<lparr>profileManager := SetSession p (SessionAt q) (profileManager s)\<rparr>)"
proof -
  let ?pm = "SetSession p (SessionAt q) (profileManager s)"
  have "session_link ?pm (sessionManager s)"
    using assms by (auto simp: shared_inv_def session_link_def SetSession_heap)
  moreover have "profile_inv ?pm" using assms(1) SetSession_inv by (simp add: shared_inv_def)
  moreover have "\<forall>r < length (profileHeap ?pm). name_ok (GetHandle r ?pm)"
    using assms(1) by (simp add: shared_inv_def SetSession_heap)
  ultimately show "shared_inv (s\<lparr>profileManager := ?pm\<rparr>)" "kept s (s\<lparr>profileManager := ?pm\<rparr>)"
    by (intro shared_inv_profiles [OF assms(1)]; simp add: grows_def SetSession_heap)+
qed

lemma push_follower_shared:
  assumes "shared_inv s" and "p < length (profileHeap (profileManager s))" and "f < length (profileHeap (profileManager s))"
    and "f \<notin> set (GetFollowers p (profileManager s))" and "pr = profileHeap (profileManager s) ! p"
    and "pm = (profileManager s)\<lparr>profileHeap := (profileHeap (profileManager s))[p := pr\<lparr>followers := followers pr @ [f]\<rparr>]\<rparr>"
  shows "shared_inv (s\<lparr>profileManager := pm\<rparr>)" "kept s (s\<lparr>profileManager := pm\<rparr>)"
proof -
  have gets: "length (profileHeap pm) = length (profileHeap (profileManager s))"
    "GetHandle q pm = GetHandle q (profileManager s)" "GetSession q pm = GetSession q (profileManager s)" for q
    using assms(2,5,6) by (auto simp: GetHandle_def GetSession_def nth_list_update)
  have "profile_inv pm"
    using assms by (auto simp: shared_inv_def profile_inv_iff profile_ok_def nth_list_update GetFollowers_def)
  moreover have "session_link pm (sessionManager s)" using assms(1) by (simp add: shared_inv_def session_link_def gets)
  moreover have "\<forall>r < length (profileHeap pm). name_ok (GetHandle r pm)" using assms(1) by (simp add: shared_inv_def gets)
  ultimately show "shared_inv (s\<lparr>profileManager := pm\<rparr>)" "kept s (s\<lparr>profileManager := pm\<rparr>)"
    by (intro shared_inv_profiles [OF assms(1)]; simp add: grows_def gets)+
qed

text \<open>The loops over the profiles.\<close>

lemma safe_users:
  assumes "stable kept K" and "\<And>us. safe_thread K (k us)"
  shows "safe_thread K (users_thread p k)"
proof -
  have rounds: "safe_thread K (users_rounds n p us temp k)" for n us temp
  proof (induction us arbitrary: temp)
    case Nil
    show ?case unfolding users_rounds.simps
      by (rule guarded_by_result [OF assms(1)])
        (auto intro!: guarded_result_fails safe_intros [where K = K] assms(2))
  next
    case (Cons user us)
    have "safe_result s (if length (profiles (profileManager s)) = n
        then (if user \<noteq> p
              then res_bind (live_sockets (GetSession user (profileManager s)) (sessionManager s)) (\<lambda>ss.
                     Inr (users_rounds n p us
                       (if ss \<noteq> [] then temp @ [GetHandle user (profileManager s)] else temp) k, s))
              else Inr (users_rounds n p us temp k, s))
        else Inl DanglingIterator)" if s: "shared_inv s" "K s" for s
    proof -
      have "safe_result s (Inr (users_rounds n p us t k, s))" for t
        by (rule safe_intros [where K = K]) (use s Cons in simp_all)
      then show ?thesis
        by (cases "live_sockets (GetSession user (profileManager s)) (sessionManager s)")
          (auto simp: live_sockets_def guarded_result_fails split: session_ref.splits)
    qed
    then show ?case unfolding users_rounds.simps by (rule guarded_by_result [OF assms(1)])
  qed
  show ?thesis unfolding users_thread_def Let_def
    by (rule guarded_by_result [OF assms(1)], rule safe_intros [where K = K]) (simp_all add: rounds)
qed

lemma safe_sync:
  assumes "stable kept K" and "safe_thread K k"
  shows "safe_thread K (sync_thread k)"
proof -
  have "safe_result s (if length (profiles (profileManager s)) = n
      then Inr (k, s\<lparr>profileManager := Sync (profileManager s)\<rparr>) else Inl DanglingIterator)"
    if s: "shared_inv s" "K s" for s n
  proof -
    have "K (s\<lparr>profileManager := Sync (profileManager s)\<rparr>)"
      using assms(1) s(2) Sync_shared(2) [OF s(1)] unfolding stable_def by blast
    then show ?thesis
      by (auto intro!: guarded_result_fails safe_intros [where K = K] Sync_shared [OF s(1)] assms(2))
  qed
  then have second: "safe_thread K (Atomic (\<lambda>s. if length (profiles (profileManager s)) = n
      then Inr (k, s\<lparr>profileManager := Sync (profileManager s)\<rparr>) else Inl DanglingIterator))" for n
    by (intro guarded_by_result [OF assms(1)])
  show ?thesis unfolding sync_thread_def Let_def
    by (rule guarded_by_result [OF assms(1)]) (auto intro!: safe_intros [where K = K] second assms(2))
qed

text \<open>CONNECT.\<close>

lemma safe_connect_session:
  assumes "ptype m = PACKET_CONNECT_CMD"
  shows "safe_thread (\<lambda>s. p < length (profileHeap (profileManager s))) (connect_session os m a p)"
proof -
  have list: "safe_thread (\<lambda>_. True) (connect_list os m a p)" unfolding connect_list_def
    by (rule safe_users) (use safe_replicate [OF assms] in simp_all)
  let ?K = "\<lambda>q (s :: Server). p < length (profileHeap (profileManager s)) \<and> q < length (sessionHeap (sessionManager s)) \<and>
     userHandle (sessionHeap (sessionManager s) ! q) = GetHandle p (profileManager s)"
  have set: "safe_thread (?K q) (connect_set os m a p q)" for q unfolding connect_set_def
    by (rule guarded_by_result, rule stable_facts, rule safe_intros [where K = "\<lambda>_. True"])
      (use SetSession_shared list in auto)
  show ?thesis unfolding connect_session_def
  proof (rule guarded_by_result, rule stable_facts)
    fix s assume s: "shared_inv s" and p: "p < length (profileHeap (profileManager s))"
    obtain ses sm where st: "StartSession (GetHandle p (profileManager s)) a (sessionManager s) = (ses, sm)" by fastforce
    note f = StartSession_shared [OF s p st]
    show "safe_result s (let (ses, sm) = StartSession (GetHandle p (profileManager s)) a (sessionManager s) in
        Inr (case ses of Some q \<Rightarrow> connect_set os m a p q | None \<Rightarrow> replicate_thread os m a, s\<lparr>sessionManager := sm\<rparr>))"
    proof (cases ses)
      case None
      then show ?thesis using st f(1,2) safe_replicate [OF assms]
        by (auto intro: safe_intros [where K = "\<lambda>_. True"])
    next
      case (Some q)
      then show ?thesis using st f p set by (auto intro!: safe_intros [where K = "?K q"])
    qed
  qed
qed

lemma safe_connect:
  assumes "ptype m = PACKET_CONNECT_CMD" and "packet_fits m"
  shows "safe_thread (\<lambda>_. True) (connect_thread os m a)"
proof -
  obtain u where u: "packet_text m = Inr u" "name_ok u"
    using packet_fits_name [OF assms(2)] assms(1) by auto
  let ?K = "\<lambda>p (s :: Server). p < length (profileHeap (profileManager s))"
  have sync: "safe_thread (?K p) (sync_thread (connect_session os m a p))" for p
    by (rule safe_sync, rule stable_facts, rule safe_connect_session [OF assms(1)])
  have new: "safe_thread (\<lambda>_. True) (connect_new os m a u)" unfolding connect_new_def
  proof (intro guarded_by_result stable_True)
    fix s assume s: "shared_inv s"
    obtain p pm where pm: "push_profile (Profile2 u) (profileManager s) = (p, pm)" by fastforce
    show "safe_result s (let (profile, pm) = push_profile (Profile2 u) (profileManager s) in
        Inr (sync_thread (connect_session os m a profile), s\<lparr>profileManager := pm\<rparr>))"
      unfolding pm Let_def prod.case
      by (rule safe_intros [where K = "?K p"]) (use push_profile_shared [OF s u(2) pm] sync in simp_all)
  qed
  show ?thesis unfolding connect_thread_def
  proof (rule guarded_by_result, simp)
    fix s assume s: "shared_inv s"
    show "safe_result s (res_bind (packet_text m) (\<lambda>username. Inr (case GetProfileByName username (profileManager s) of
        Some profile \<Rightarrow> connect_session os m a profile | None \<Rightarrow> connect_new os m a username, s)))"
    proof (cases "GetProfileByName u (profileManager s)")
      case None
      then show ?thesis using u(1) s new by (auto intro: safe_intros [where K = "\<lambda>_. True"])
    next
      case (Some p)
      then have "?K p s" using s GetProfileByName_Some by (auto simp: shared_inv_def)
      then show ?thesis using u(1) s Some safe_connect_session [OF assms(1)] by (auto intro: safe_intros [where K = "?K p"])
    qed
  qed
qed

text \<open>DISCONNECT, FOLLOW, SEND and the request for information.\<close>

lemma found_profile:
  "shared_inv s \<Longrightarrow> GetProfileByName u (profileManager s) = Some p \<Longrightarrow> p < length (profileHeap (profileManager s))"
  using GetProfileByName_Some by (auto simp: shared_inv_def)

lemma safe_disconnect:
  assumes "packet_ok m"
  shows "safe_thread (\<lambda>_. True) (disconnect_thread m a)"
proof -
  obtain u where u: "packet_text m = Inr u" using packet_ok_text [OF assms] by blast
  have "safe_thread (\<lambda>_. True) (Atomic (\<lambda>s. let (ended, sm) = EndSession (GetHandle p (profileManager s)) a (sessionManager s)
      in Inr (Finished, s\<lparr>sessionManager := sm\<rparr>)))" for p
    by (rule guarded_by_result, simp, simp add: split_def Let_def, rule guarded_result_ends) (use EndSession_shared in auto)
  then have "safe_result s (Inr (case GetProfileByName u (profileManager s) of
      Some profile \<Rightarrow> Atomic (\<lambda>s. let (ended, sm) = EndSession (GetHandle profile (profileManager s)) a (sessionManager s)
        in Inr (Finished, s\<lparr>sessionManager := sm\<rparr>)) | None \<Rightarrow> Finished, s))" if "shared_inv s" for s
    by (intro safe_intros [where K = "\<lambda>_. True"]) (use that in \<open>auto simp: guarded_Finished split: option.split\<close>)
  then show ?thesis unfolding disconnect_thread_def u res_bind.simps by (intro guarded_by_result) simp_all
qed

lemma safe_add_follower:
  "safe_thread (\<lambda>s. p < length (profileHeap (profileManager s)) \<and>
      (\<exists>p' < length (profileHeap (profileManager s)). GetHandle p' (profileManager s) = u)) (add_follower_thread p u)"
proof -
  have sync: "safe_thread (\<lambda>_. True) (sync_thread Finished)"
    by (rule safe_sync) (simp_all add: guarded_Finished)
  let ?K = "\<lambda>f (s :: Server). p < length (profileHeap (profileManager s)) \<and> f < length (profileHeap (profileManager s))"
  have push: "safe_thread (?K f) (push_follower p f)" for f unfolding push_follower_def Let_def
  proof (rule guarded_by_result)
    show "stable kept (?K f)" by (rule stable_conj) simp_all
    fix s assume s: "shared_inv s" and k: "?K f s"
    show "safe_result s (if f \<notin> set (GetFollowers p (profileManager s))
        then Inr (sync_thread Finished,
          s\<lparr>profileManager := (profileManager s)\<lparr>profileHeap := (profileHeap (profileManager s))[p := (profileHeap (profileManager s) ! p)
              \<lparr>followers := followers (profileHeap (profileManager s) ! p) @ [f]\<rparr>]\<rparr>\<rparr>)
        else Inr (Finished, s))"
    proof (cases "f \<in> set (GetFollowers p (profileManager s))")
      case True
      then show ?thesis using s by (simp add: guarded_result_ends)
    next
      case False
      note f = push_follower_shared [OF s _ _ False refl refl]
      from False show ?thesis
        by (simp, intro safe_intros [where K = "\<lambda>_. True"]) (use f k sync in auto)
    qed
  qed
  show ?thesis unfolding add_follower_thread_def
  proof (rule guarded_by_result, rule stable_conj [OF stable_facts(2,4)])
    fix s assume s: "shared_inv s" and k: "p < length (profileHeap (profileManager s)) \<and>
      (\<exists>p' < length (profileHeap (profileManager s)). GetHandle p' (profileManager s) = u)"
    have "GetProfileByName u (profileManager s) \<noteq> None"
      using s k GetProfileByName_None [of "profileManager s" u] by (auto simp: shared_inv_def)
    then obtain f where f: "GetProfileByName u (profileManager s) = Some f" by blast
    show "safe_result s (case GetProfileByName u (profileManager s) of
        Some pProfile \<Rightarrow> Inr (push_follower p pProfile, s) | None \<Rightarrow> Inl MissingReturn)"
      unfolding f option.case
      by (rule safe_intros [where K = "?K f"]) (use s k push found_profile [OF s f] in auto)
  qed
qed

lemma safe_follow:
  assumes "packet_ok m"
  shows "safe_thread (\<lambda>_. True) (follow_thread m a)"
proof -
  obtain w where w: "packet_text m = Inr w" using packet_ok_text [OF assms] by blast
  let ?K = "\<lambda>u (s :: Server). \<exists>p' < length (profileHeap (profileManager s)). GetHandle p' (profileManager s) = u"
  let ?K2 = "\<lambda>u p (s :: Server). p < length (profileHeap (profileManager s)) \<and> ?K u s"
  have second: "safe_thread (?K u) (Atomic (\<lambda>s. Inr (case GetProfileByName w (profileManager s) of
      Some profile \<Rightarrow> if w = u then Finished else add_follower_thread profile u | None \<Rightarrow> Finished, s)))" for u
  proof (rule guarded_by_result, rule stable_facts)
    fix s assume s: "shared_inv s" and k: "?K u s"
    show "safe_result s (Inr (case GetProfileByName w (profileManager s) of
        Some profile \<Rightarrow> if w = u then Finished else add_follower_thread profile u | None \<Rightarrow> Finished, s))"
    proof (cases "GetProfileByName w (profileManager s)")
      case (Some p)
      then have "?K2 u p s" using found_profile [OF s] k by blast
      then show ?thesis using Some s safe_add_follower
        by (cases "w = u") (auto intro: guarded_result_ends safe_intros [where K = "?K2 u p"])
    qed (use s in \<open>simp add: guarded_result_ends\<close>)
  qed
  show ?thesis unfolding follow_thread_def w res_bind.simps
  proof (rule guarded_by_result, simp)
    fix s assume s: "shared_inv s"
    show "safe_result s (Inr (case GetUserNameByAddressAndIP a (sessionManager s) of
        Some username \<Rightarrow> Atomic (\<lambda>s. Inr (case GetProfileByName w (profileManager s) of
          Some profile \<Rightarrow> if w = username then Finished else add_follower_thread profile username | None \<Rightarrow> Finished, s))
        | None \<Rightarrow> Finished, s))"
    proof (cases "GetUserNameByAddressAndIP a (sessionManager s)")
      case (Some u)
      show ?thesis unfolding Some option.case
        by (rule safe_intros [where K = "?K u"]) (use s second session_name_ok(2) [OF s Some] in auto)
    qed (use s in \<open>simp add: guarded_result_ends\<close>)
  qed
qed

lemma safe_push_notifications:
  assumes "name_ok u" and "packet_text m = Inr b" and "length b \<le> 128"
  shows "safe_thread (\<lambda>s. set fs \<subseteq> {..<length (profileHeap (profileManager s))}) (push_notifications u m fs)"
proof (induction fs)
  case Nil
  then show ?case by (simp add: guarded_Finished)
next
  case (Cons f fs)
  have ok: "note_ok (PendingNotification_new u b f)"
    using assms packet_text_NUL by (simp add: note_ok_def PendingNotification_new_def)
  let ?K = "\<lambda>s :: Server. set fs \<subseteq> {..<length (profileHeap (profileManager s))}"
  show ?case unfolding push_notifications.simps assms(2) res_bind.simps
  proof (rule guarded_by_result, rule stable_facts)
    fix s assume s: "shared_inv s" and k: "set (f # fs) \<subseteq> {..<length (profileHeap (profileManager s))}"
    have "shared_inv (s\<lparr>notificationQueue := notificationQueue s @ [PendingNotification_new u b f]\<rparr>)"
      by (rule shared_inv_queue [OF s]) (use s k ok in \<open>auto simp: shared_inv_def PendingNotification_new_def\<close>)
    then show "safe_result s (Inr (push_notifications u m fs,
        s\<lparr>notificationQueue := notificationQueue s @ [PendingNotification_new u b f]\<rparr>))"
      by (rule safe_intros [where K = ?K]) (use k Cons in auto)
  qed
qed

text \<open>A thread that looks up the sender of a packet and then the sender's profile.\<close>

lemma safe_by_sender:
  assumes "\<And>u p. name_ok u \<Longrightarrow> safe_thread (\<lambda>s. p < length (profileHeap (profileManager s))) (T u p)"
  shows "safe_thread (\<lambda>_. True) (Atomic (\<lambda>s. Inr (case GetUserNameByAddressAndIP a (sessionManager s) of
      Some username \<Rightarrow> Atomic (\<lambda>s. Inr (case GetProfileByName username (profileManager s) of
        Some profile \<Rightarrow> T username profile | None \<Rightarrow> Finished, s))
    | None \<Rightarrow> Finished, s)))"
proof (rule guarded_by_result, simp)
  let ?K = "\<lambda>p (s :: Server). p < length (profileHeap (profileManager s))"
  fix s assume s: "shared_inv s"
  show "safe_result s (Inr (case GetUserNameByAddressAndIP a (sessionManager s) of
      Some username \<Rightarrow> Atomic (\<lambda>s. Inr (case GetProfileByName username (profileManager s) of
        Some profile \<Rightarrow> T username profile | None \<Rightarrow> Finished, s)) | None \<Rightarrow> Finished, s))"
  proof (cases "GetUserNameByAddressAndIP a (sessionManager s)")
    case (Some u)
    have "safe_result s' (Inr (case GetProfileByName u (profileManager s') of Some profile \<Rightarrow> T u profile | None \<Rightarrow> Finished, s'))"
      if "shared_inv s'" for s'
    proof (cases "GetProfileByName u (profileManager s')")
      case (Some p)
      then show ?thesis using that found_profile [OF that Some] assms [OF session_name_ok(1) [OF s \<open>_ = Some u\<close>]]
        by (auto intro: safe_intros [where K = "?K p"])
    qed (use that in \<open>simp add: guarded_result_ends\<close>)
    then have "safe_thread (\<lambda>_. True) (Atomic (\<lambda>s. Inr (case GetProfileByName u (profileManager s) of
        Some profile \<Rightarrow> T u profile | None \<Rightarrow> Finished, s)))"
      by (intro guarded_by_result) simp_all
    then show ?thesis unfolding Some option.case
      by (intro safe_intros [where K = "\<lambda>_. True"]) (use s in simp_all)
  qed (use s in \<open>simp add: guarded_result_ends\<close>)
qed

lemma safe_send:
  assumes "packet_fits m" and "ptype m = PACKET_SEND_CMD"
  shows "safe_thread (\<lambda>_. True) (send_thread m a)"
  unfolding send_thread_def
proof (rule safe_by_sender)
  fix u p assume u: "name_ok u"
  obtain b where b: "packet_text m = Inr b" "length b \<le> 128"
    by (rule packet_fits_text [OF assms(1)]) (use assms(2) in simp)
  show "safe_thread (\<lambda>s. p < length (profileHeap (profileManager s)))
      (Atomic (\<lambda>s. Inr (push_notifications u m (GetFollowers p (profileManager s)), s)))"
  proof (rule guarded_by_result, rule stable_facts)
    fix s assume s: "shared_inv s" and p: "p < length (profileHeap (profileManager s))"
    have "set (GetFollowers p (profileManager s)) \<subseteq> {..<length (profileHeap (profileManager s))}"
      using s p by (simp add: shared_inv_def profile_inv_iff profile_ok_def GetFollowers_def)
    then show "safe_result s (Inr (push_notifications u m (GetFollowers p (profileManager s)), s))"
      by (intro safe_intros [where K = "\<lambda>s'. set (GetFollowers p (profileManager s)) \<subseteq> {..<length (profileHeap (profileManager s'))}"])
        (use s safe_push_notifications [OF u b] in simp_all)
  qed
qed

lemma safe_user_info: "safe_thread (\<lambda>_. True) (user_info_thread a)"
  unfolding user_info_thread_def
proof (rule safe_by_sender)
  fix u :: string and p
  have "safe_thread (\<lambda>s. p < length (profileHeap (profileManager s)))
      (Atomic (\<lambda>s. let response = user_info_text p users (profileManager s) in Inr (Finished, s)))" for users
    unfolding Let_def by (rule guarded_by_result, rule stable_facts) (simp add: guarded_result_ends)
  then show "safe_thread (\<lambda>s. p < length (profileHeap (profileManager s))) (users_thread p (\<lambda>users.
      Atomic (\<lambda>s. let response = user_info_text p users (profileManager s) in Inr (Finished, s))))"
    by (intro safe_users stable_facts)
qed

lemma safe_handler:
  assumes "packet_fits m"
  shows "safe_thread (\<lambda>_. True) (handler_thread os m a)"
proof -
  have ok: "packet_ok m" using assms by (simp add: packet_fits_def)
  have "safe_thread (\<lambda>_. True) (Atomic (\<lambda>s. res_bind (TypeToStr (ptype m)) (\<lambda>_. Inr (Finished, s))))"
    if "ptype m \<noteq> PACKET_REQUEST_USER_INFO"
  proof -
    have "nameable (ptype m)" using ok that by (simp add: packet_ok_def)
    then obtain n where n: "TypeToStr (ptype m) = Inr n" by (auto simp: nameable_def)
    show ?thesis unfolding n res_bind.simps by (rule guarded_by_result) (simp_all add: guarded_result_ends)
  qed
  then show ?thesis unfolding handler_thread_def
    using assms ok safe_connect safe_disconnect safe_follow safe_send safe_user_info safe_confirm by (auto split: if_split)
qed

text \<open>The worker.\<close>

lemma safe_notify:
  assumes "note_ok n"
  shows "safe_thread (\<lambda>_. True) (notify_thread os n q vs ss)"
proof (induction ss)
  case Nil
  show ?case unfolding notify_thread.simps
    by (rule guarded_by_result) (auto intro!: guarded_result_ends guarded_result_fails)
next
  case (Cons a ss)
  have send: "safe_thread (\<lambda>_. True) (Atomic (\<lambda>s. res_bind (MakeNotification (os_time os) (v + 1) (pn_body n) (senderUsername n))
      (\<lambda>p. res_bind (Reply os a p s) (\<lambda>s'. Inr (notify_thread os n q vs ss, s')))))" for v
  proof (rule guarded_by_result, simp)
    fix s assume s: "shared_inv s"
    have fits: "NUL \<notin> set (notification_text (pn_body n) (senderUsername n))"
      "length (notification_text (pn_body n) (senderUsername n)) < 512"
      using assms by (auto simp: note_ok_def name_ok_def notification_text_NUL_free notification_text_length)
    obtain p where p: "MakeNotification (os_time os) (v + 1) (pn_body n) (senderUsername n) = Inr p"
      "ptype p = PACKET_NOTIFICATION"
      using Make_init [OF fits, of "os_time os" PACKET_NOTIFICATION "v + 1 + 1" "length (pn_body n)"]
      by (auto simp: MakeNotification_def Let_def)
    have "nameable (ptype p)" using p(2) by simp
    from socket_send_eq [OF this, of os a s] have "\<exists>out. Reply os a p s = Inr (s\<lparr>sent := out\<rparr>)"
      by (auto simp: Reply_def)
    then obtain out where r: "Reply os a p s = Inr (s\<lparr>sent := out\<rparr>)" by blast
    show "safe_result s (res_bind (MakeNotification (os_time os) (v + 1) (pn_body n) (senderUsername n))
        (\<lambda>p. res_bind (Reply os a p s) (\<lambda>s'. Inr (notify_thread os n q vs ss, s'))))"
      unfolding p(1) res_bind.simps r
      by (rule safe_intros [where K = "\<lambda>_. True"]) (use s Cons in simp_all)
  qed
  have load: "safe_result s (Inr (Atomic (\<lambda>s. Inr (Atomic (\<lambda>s.
      res_bind (MakeNotification (os_time os) (v + 1) (pn_body n) (senderUsername n)) (\<lambda>p.
        res_bind (Reply os a p s) (\<lambda>s'. Inr (notify_thread os n q vs ss, s')))), s\<lparr>lastSeqn := v + 1\<rparr>)), s))"
    if "shared_inv s" for s v
    using that by (intro guarded_by_result stable_True safe_intros [where K = "\<lambda>_. True"] send) simp_all
  show ?case unfolding notify_thread.simps Let_def
    by (rule guarded_by_result) (simp_all add: load guarded_result_fails)
qed

lemma safe_worker: "safe_thread (\<lambda>_. True) (worker_thread os)"
  unfolding worker_thread_def
proof (rule guarded_by_result, simp)
  fix s assume s: "shared_inv s"
  have start: "safe_thread (\<lambda>_. True) (Atomic (\<lambda>s. let ss = sockets (sessionHeap (sessionManager s) ! q) in
      Inr (notify_thread os n q ss ss, s)))" if "note_ok n" for n q
    unfolding Let_def
    by (rule guarded_by_result, simp, rule safe_intros [where K = "\<lambda>_. True"]) (simp_all add: safe_notify [OF that])
  show "safe_result s (case notificationQueue s of [] \<Rightarrow> Inr (Finished, s)
      | n # ns \<Rightarrow> (let s1 = s\<lparr>notificationQueue := ns\<rparr> in
          case GetSession (recipient n) (profileManager s1) of
            Indeterminate \<Rightarrow> Inl UninitialisedRead
          | NullSession \<Rightarrow> Inr (Finished, s1\<lparr>notificationQueue := notificationQueue s1 @ [n]\<rparr>)
          | SessionAt q \<Rightarrow>
              if length (sockets (sessionHeap (sessionManager s1) ! q)) > 0
              then Inr (Atomic (\<lambda>s. let ss = sockets (sessionHeap (sessionManager s) ! q) in
                     Inr (notify_thread os n q ss ss, s)), s1)
              else Inr (Finished, s1\<lparr>notificationQueue := notificationQueue s1 @ [n]\<rparr>)))"
  proof (cases "notificationQueue s")
    case Nil
    then show ?thesis using s by (simp add: guarded_result_ends)
  next
    case (Cons n ns)
    have n: "note_ok n" and q: "shared_inv (s\<lparr>notificationQueue := ns\<rparr>)" "shared_inv (s\<lparr>notificationQueue := ns @ [n]\<rparr>)"
      using s Cons by (auto simp: shared_inv_def)
    show ?thesis unfolding Cons list.case Let_def
      by (cases "GetSession (recipient n) (profileManager s)")
        (use q in \<open>auto simp: guarded_result_fails intro!: guarded_result_ends safe_intros [where K = "\<lambda>_. True"] start [OF n, unfolded Let_def]\<close>)
  qed
qed

lemma pointed_session:
  assumes "shared_inv s" and "p < length (profileHeap (profileManager s))" and "GetSession p (profileManager s) = SessionAt q"
  shows "map_find (GetHandle p (profileManager s)) (sessions (sessionManager s)) = Some q"
proof -
  have "session_inv (sessionManager s)" using assms(1) by (simp add: shared_inv_def)
  from session_invD(4) [OF this, of q] assms show ?thesis unfolding shared_inv_def session_link_def by metis
qed

section \<open>The system\<close>

definition threads_init :: "Server config \<Rightarrow> bool" where
  "threads_init c \<longleftrightarrow> server_init (fst c) \<and> snd c = [Finished]"

definition worker_round_thread :: "Server thread \<Rightarrow> bool" where
  "worker_round_thread t \<longleftrightarrow> (\<exists>os. t = worker_thread os)"

definition started_handler :: "Server thread \<Rightarrow> bool" where
  "started_handler t \<longleftrightarrow> (\<exists>os m a. packet_fits m \<and> t = handler_thread os m a)"

abbreviation server_threads :: "Server config \<Rightarrow> Server config \<Rightarrow> bool" where
  "server_threads \<equiv> interleave worker_round_thread started_handler"

lemma server_init_shared: "server_init s \<Longrightarrow> shared_inv s"
  using server_init_ok [of s]
  by (auto simp: server_init_def Server_new_fresh res_simps server_ok_def server_inv_def store_inv_def shared_inv_def)

interpretation srv: thread_system shared_inv kept race_failure threads_init worker_round_thread started_handler
proof
  show "threads_init c \<Longrightarrow> shared_inv (fst c) \<and> set (snd c) \<subseteq> {Finished}" for c
    using server_init_shared by (simp add: threads_init_def)
  show "worker_round_thread t \<Longrightarrow> safe_thread (\<lambda>_. True) t" for t
    using safe_worker by (auto simp: worker_round_thread_def)
  show "started_handler t \<Longrightarrow> safe_thread (\<lambda>_. True) t" for t
    using safe_handler by (auto simp: started_handler_def)
qed

section \<open>Schedules\<close>

text \<open>Two clients that connect at the same time to a server that has just started.\<close>

definition race_addr :: "int \<Rightarrow> SocketAddress" where
  "race_addr p = \<lparr>address = ''10.0.0.1'', port = p\<rparr>"

definition race_config :: "Packet \<Rightarrow> Packet \<Rightarrow> Server config" where
  "race_config m m' = (example_server,
     [Finished, handler_thread example_os m (race_addr 1), handler_thread example_os m' (race_addr 2)])"

lemma race_reachable:
  assumes "packet_fits m" and "packet_fits m'" and "schedule is (race_config m m') = Some c"
  shows "reachable threads_init server_threads c"
proof -
  let ?t = "handler_thread example_os m (race_addr 1)" and ?t' = "handler_thread example_os m' (race_addr 2)"
  have st: "started_handler ?t" "started_handler ?t'"
    using assms(1,2) unfolding started_handler_def by blast+
  have "reachable threads_init server_threads (example_server, [Finished])"
    by (rule reach_init) (simp add: threads_init_def example_server_init)
  then have "reachable threads_init server_threads (example_server, [Finished] @ [?t])"
    by (rule reach_step) (intro started st)
  then have "reachable threads_init server_threads (example_server, ([Finished] @ [?t]) @ [?t'])"
    by (rule reach_step) (intro started st)
  then show ?thesis using schedule_reachable [OF assms(3)] by (simp add: race_config_def)
qed

lemma example_packets_fit: "packet_fits example_connect" "packet_fits example_connect_bia"
proof -
  have "packet_ok m" if "packet_text m = Inr u" "ptype m = PACKET_CONNECT_CMD" for m u
    using that by (auto simp: packet_ok_def packet_text_def string_of_array_def split: if_splits)
  then show "packet_fits example_connect" "packet_fits example_connect_bia"
    by (auto simp: packet_fits_def example_connect_bia_facts)
qed

lemmas race_pieces = handler_thread_def connect_thread_def connect_new_def sync_thread_def connect_session_def
  connect_set_def connect_list_def users_thread_def

lemmas race_state = example_server_def GetProfileByName_def push_profile_def Profile2_def GetHandle_def GetSession_def
  StartSession_def SessionManager_new_def map_find_def SetSession_def Sync_def Let_def

lemma uninit_schedule:
  "\<exists>s ts. schedule [1, 1, 2, 2, 2, 2, 2, 2, 2] (race_config example_connect example_connect_bia) = Some (s, ts) \<and>
    ts ! 2 = users_rounds 2 1 [0, 1] [] (\<lambda>users. replicate_thread example_os example_connect_bia (race_addr 2)) \<and>
    profiles (profileManager s) = [0, 1] \<and> GetHandle 0 (profileManager s) = ''ana'' \<and>
    GetSession 0 (profileManager s) = Indeterminate"
  by (simp add: race_config_def race_pieces race_state example_connect_bia_facts numeral_2_eq_2)

lemma iterator_schedule:
  "\<exists>s ts. schedule [1, 1, 1, 1, 1, 1, 1, 2, 2] (race_config example_connect example_connect_bia) = Some (s, ts) \<and>
    ts ! 1 = users_rounds 1 0 [0] [] (\<lambda>users. replicate_thread example_os example_connect (race_addr 1)) \<and>
    profiles (profileManager s) = [0, 1]"
  by (simp add: race_config_def race_pieces race_state example_connect_bia_facts)

lemma dup_schedule:
  "\<exists>s ts. schedule [1, 2, 1, 2] (race_config example_connect example_connect) = Some (s, ts) \<and>
    length (profileHeap (profileManager s)) = 2 \<and> GetHandle 0 (profileManager s) = ''ana'' \<and>
    GetHandle 1 (profileManager s) = ''ana''"
  by (simp add: race_config_def race_pieces race_state)

text \<open>Both threads are past their reads of the counter before either advances it.\<close>

lemma numbers_schedule:
  "\<exists>s ts c c'. schedule ([1, 1, 1, 1, 1, 1, 1, 1, 1, 1, 1, 1] @ [2, 2, 2, 2, 2, 2, 2, 2, 2, 2, 2, 2, 2] @
      [1, 1, 1, 1, 1, 1, 1] @ [2, 2, 2, 2, 2, 2, 2]) (race_config example_connect example_connect_bia) = Some (s, ts) \<and>
    confirmationBuffer (replicaManager s) = Some [c, c'] \<and> lastSeqn s = 6 \<and>
    awaited [c] = [0, 1, 2] \<and> awaited [c'] = [0, 1, 2] \<and>
    originalHost c = Some (race_addr 1) \<and> originalHost c' = Some (race_addr 2) \<and> \<not> ContainerConfirmed c'"
  by (simp add: race_config_def race_pieces race_state example_connect_bia_facts replicate_thread_def
      broadcast_thread_def push_pending_def live_sockets_def IsPrimary_def GetLastSeqn_def
      GetSecondaryReplicas_def Push3_def fresh_items_def awaited_def BaseMessage2_def ContainerConfirmed_def numeral_3_eq_3)

section \<open>Properties\<close>

text \<open>
  C4.  The server under concurrency, at the granularity of the pieces: however the pieces of any
  number of handlers, for packets with names of at most 380 and posts of at most 128 characters,
  and of the worker interleave on a server that started without a profile file and knows a primary,
  no user ever has more than two addresses, every session is the one its table entry names, a
  profile's session pointer leads to the session of its own handle, every queued notification has
  an existing recipient; and the only failures that the next piece of any thread can have are those
  two of the races: the read of a session pointer that was never set, and the use of an iterator of
  a shared vector that another thread has changed.  There is no null pointer, no index out of
  range, no overflow.  \<open>BroadcastToSecondaries\<close> and \<open>ConfirmMessage\<close>, which have no return
  statement and whose value is not used, are taken to return.
\<close>

theorem interleaved_safe:
  assumes "reachable threads_init server_threads (s, ts)"
  shows "session_inv (sessionManager s) \<and>
    (\<forall>u. length (GetUserAddresses u (sessionManager s)) \<le> MAX_SESSIONS_PER_USER) \<and>
    (\<forall>p < length (profileHeap (profileManager s)). \<forall>q. GetSession p (profileManager s) = SessionAt q \<longrightarrow>
       map_find (GetHandle p (profileManager s)) (sessions (sessionManager s)) = Some q) \<and>
    (\<forall>n \<in> set (notificationQueue s). recipient n < length (profileHeap (profileManager s))) \<and>
    failures (s, ts) \<subseteq> {UninitialisedRead, DanglingIterator}"
proof -
  have inv: "shared_inv s" using srv.reachable_inv [OF assms] by simp
  then have si: "session_inv (sessionManager s)" by (simp add: shared_inv_def)
  have "failures (s, ts) \<subseteq> {UninitialisedRead, DanglingIterator}"
    using srv.reachable_failures [OF assms] by (auto simp: race_failure_def)
  moreover have "\<forall>n \<in> set (notificationQueue s). recipient n < length (profileHeap (profileManager s))"
    using inv by (simp add: shared_inv_def)
  ultimately show ?thesis using si GetUserAddresses_bound [OF si] pointed_session [OF inv] by blast
qed

theorem interleaved_safe_witness:
  "\<exists>s ts. schedule [1, 1, 2, 2, 2, 2, 2, 2, 2] (race_config example_connect example_connect_bia) = Some (s, ts) \<and>
    failures (s, ts) \<subseteq> {UninitialisedRead, DanglingIterator}"
proof -
  obtain s ts where c: "schedule [1, 1, 2, 2, 2, 2, 2, 2, 2] (race_config example_connect example_connect_bia) = Some (s, ts)"
    using uninit_schedule by blast
  have "reachable threads_init server_threads (s, ts)"
    by (rule race_reachable [OF example_packets_fit c])
  from interleaved_safe [OF this] c show ?thesis by blast
qed

text \<open>
  C37.  Two clients that connect at the same time can crash a server that has just started: the
  handlers of CONNECT packets for ana and bia run so that ana's profile is created but its session
  not yet stored when bia's handler lists the connected users; the listing reads the session
  pointer of ana's profile, which nothing initialised, and the next piece of bia's handler fails.
\<close>

theorem connect_race_crash:
  "\<exists>is s ts f. schedule is (example_server, [Finished, handler_thread example_os example_connect (race_addr 1),
      handler_thread example_os example_connect_bia (race_addr 2)]) = Some (s, ts) \<and>
    reachable threads_init server_threads (s, ts) \<and>
    GetHandle 0 (profileManager s) = ''ana'' \<and> GetSession 0 (profileManager s) = Indeterminate \<and>
    GetConnectedUsers (Some 1) (profileManager s) (sessionManager s) = Inl UninitialisedRead \<and>
    ts ! 2 = users_rounds 2 1 (profiles (profileManager s)) []
      (\<lambda>users. replicate_thread example_os example_connect_bia (race_addr 2)) \<and>
    ts ! 2 = Atomic f \<and> f s = Inl UninitialisedRead"
proof -
  obtain s ts where c: "schedule [1, 1, 2, 2, 2, 2, 2, 2, 2] (race_config example_connect example_connect_bia) = Some (s, ts)"
    and t: "ts ! 2 = users_rounds 2 1 [0, 1] [] (\<lambda>users. replicate_thread example_os example_connect_bia (race_addr 2))"
    and p: "profiles (profileManager s) = [0, 1]" "GetHandle 0 (profileManager s) = ''ana''"
      "GetSession 0 (profileManager s) = Indeterminate"
    using uninit_schedule by blast
  have r: "reachable threads_init server_threads (s, ts)"
    by (rule race_reachable [OF example_packets_fit c])
  have u: "GetConnectedUsers (Some 1) (profileManager s) (sessionManager s) = Inl UninitialisedRead"
    by (rule GetConnectedUsers_unknown [of 0]) (simp_all add: p)
  obtain f where f: "ts ! 2 = Atomic f" "f s = Inl UninitialisedRead"
    using t p by (simp add: live_sockets_def)
  show ?thesis
    by (intro exI conjI, rule c [unfolded race_config_def], rule r, rule p(2), rule p(3), rule u,
        rule t [folded p(1)], rule f(1), rule f(2))
qed

text \<open>
  The unlocked loop over the profiles: when bia's handler creates its profile while ana's
  handler lists the connected users, the vector that the listing iterates over has grown, and the
  next piece of ana's handler uses an invalid iterator.
\<close>

lemma profile_iterator_race:
  "\<exists>is s ts f. schedule is (example_server, [Finished, handler_thread example_os example_connect (race_addr 1),
      handler_thread example_os example_connect_bia (race_addr 2)]) = Some (s, ts) \<and>
    reachable threads_init server_threads (s, ts) \<and>
    ts ! 1 = users_rounds 1 0 [0] [] (\<lambda>users. replicate_thread example_os example_connect (race_addr 1)) \<and>
    profiles (profileManager s) = [0, 1] \<and> ts ! 1 = Atomic f \<and> f s = Inl DanglingIterator"
proof -
  obtain s ts where c: "schedule [1, 1, 1, 1, 1, 1, 1, 2, 2] (race_config example_connect example_connect_bia) = Some (s, ts)"
    and t: "ts ! 1 = users_rounds 1 0 [0] [] (\<lambda>users. replicate_thread example_os example_connect (race_addr 1))"
    and p: "profiles (profileManager s) = [0, 1]"
    using iterator_schedule by blast
  have r: "reachable threads_init server_threads (s, ts)"
    by (rule race_reachable [OF example_packets_fit c])
  obtain f where f: "ts ! 1 = Atomic f" "f s = Inl DanglingIterator"
    using t p by simp
  show ?thesis
    by (intro exI conjI, rule c [unfolded race_config_def], rule r, rule t, rule p, rule f(1), rule f(2))
qed

text \<open>
  C33.  The unlocked loop over the addresses of a session: in every state with the invariant of the
  threads in which the next notification is for a connected user, a DISCONNECT of this user that is
  handled after the worker has started its loop erases an address from the vector that the worker
  iterates over, and the next use of the worker's iterator is invalid.
\<close>

theorem worker_iterator_race:
  assumes "shared_inv s" and "notificationQueue s = n # ns"
    and "GetSession (recipient n) (profileManager s) = SessionAt q"
    and "a \<in> set (sockets (sessionHeap (sessionManager s) ! q))" and "ptype m = PACKET_DISCONNECT_CMD"
    and "packet_text m = Inr (GetHandle (recipient n) (profileManager s))"
  shows "\<exists>s' ts f. schedule [0, 0, 1, 1] (s, [worker_thread os, handler_thread os m a]) = Some (s', ts) \<and>
    sockets (sessionHeap (sessionManager s') ! q) = remove1 a (sockets (sessionHeap (sessionManager s) ! q)) \<and>
    ts ! 0 = Atomic f \<and> f s' = Inl DanglingIterator"
proof -
  let ?vs = "sockets (sessionHeap (sessionManager s) ! q)" and ?u = "GetHandle (recipient n) (profileManager s)"
  have r: "recipient n < length (profileHeap (profileManager s))" using assms(1,2) by (simp add: shared_inv_def)
  have q: "map_find ?u (sessions (sessionManager s)) = Some q" by (rule pointed_session [OF assms(1) r assms(3)])
  have si: "session_inv (sessionManager s)" using assms(1) by (simp add: shared_inv_def)
  have ql: "q < length (sessionHeap (sessionManager s))" using session_invD(2) [OF si q] .
  have "GetProfileByName ?u (profileManager s) \<noteq> None"
    using assms(1) r GetProfileByName_None [of "profileManager s" ?u] by (auto simp: shared_inv_def)
  then obtain p where p: "GetProfileByName ?u (profileManager s) = Some p" by blast
  then have h: "GetHandle p (profileManager s) = ?u" by (auto simp: GetProfileByName_def find_Some_iff)
  let ?sm = "snd (EndSession ?u a (sessionManager s))" and ?s = "s\<lparr>notificationQueue := ns\<rparr>"
  have e: "sockets (sessionHeap ?sm ! q) = remove1 a ?vs"
    using assms(4) q ql by (auto simp: EndSession_def Let_def same_address_fun erase_first_eq list_ex_iff)
  obtain b vs where vs: "?vs = b # vs" using assms(4) by (cases ?vs) auto
  have ne: "remove1 a ?vs \<noteq> ?vs"
  proof
    assume "remove1 a ?vs = ?vs"
    then have "length ?vs - 1 = length ?vs" using length_remove1 [of a ?vs] assms(4) by simp
    then show False by (simp add: vs)
  qed
  have "schedule [0, 0, 1, 1] (s, [worker_thread os, handler_thread os m a]) =
      Some (?s\<lparr>sessionManager := ?sm\<rparr>, [notify_thread os n q ?vs ?vs, Finished])"
    using assms(2,3,5,6) p h vs by (simp add: worker_thread_def handler_thread_def disconnect_thread_def split_def Let_def)
  moreover obtain f where "notify_thread os n q ?vs ?vs = Atomic f" "f (?s\<lparr>sessionManager := ?sm\<rparr>) = Inl DanglingIterator"
    using e ne by (simp add: vs)
  ultimately show ?thesis using e by auto
qed

theorem worker_iterator_race_witness:
  "\<exists>s' ts f. schedule [0, 0, 1, 1] (example_two\<lparr>notificationQueue := [\<lparr>senderUsername = ''ana'', pn_body = ''hi'', recipient = 1\<rparr>]\<rparr>,
      [worker_thread example_os, handler_thread example_os (projr (MakeDisconnectCommand 1600000000 4 ''bia''))
        \<lparr>address = ''10.0.0.2'', port = 5001\<rparr>]) = Some (s', ts) \<and> ts ! 0 = Atomic f \<and> f s' = Inl DanglingIterator"
proof -
  let ?s = "example_two\<lparr>notificationQueue := [\<lparr>senderUsername = ''ana'', pn_body = ''hi'', recipient = 1\<rparr>]\<rparr>"
  obtain m where m: "MakeDisconnectCommand 1600000000 4 ''bia'' = Inr m" "packet_text m = Inr ''bia''"
    "ptype m = PACKET_DISCONNECT_CMD"
    using Make_init [of "''bia''" 1600000000 PACKET_DISCONNECT_CMD "4 + 1" "length ''bia''"]
    by (auto simp: MakeDisconnectCommand_def NUL_def)
  have i: "server_inv example_two" "has_primary (replicaManager example_two)"
    using example_two_ok by (simp_all add: server_ok_def)
  have "shared_inv ?s"
    using i by (auto simp: shared_inv_def server_inv_def store_inv_def name_ok_def note_ok_def NUL_def GetHandle_def
        example_two_def less_Suc_eq)
  moreover have "GetSession 1 (profileManager example_two) = SessionAt 1" "GetHandle 1 (profileManager example_two) = ''bia''"
    "\<lparr>address = ''10.0.0.2'', port = 5001\<rparr> \<in> set (sockets (sessionHeap (sessionManager example_two) ! 1))"
    by (simp_all add: example_two_def GetSession_def GetHandle_def)
  ultimately show ?thesis
    using worker_iterator_race [of ?s "\<lparr>senderUsername = ''ana'', pn_body = ''hi'', recipient = 1\<rparr>" "[]" 1
        "\<lparr>address = ''10.0.0.2'', port = 5001\<rparr>" m example_os] m by auto
qed

text \<open>
  C38.  The check-then-act race on profiles: two handlers for the same new user, interleaved between
  the lookup and the creation, leave two profiles with the same handle.
\<close>

theorem duplicate_profile_race:
  "\<exists>s ts. reachable threads_init server_threads (s, ts) \<and> length (profileHeap (profileManager s)) = 2 \<and>
    GetHandle 0 (profileManager s) = GetHandle 1 (profileManager s) \<and> \<not> handles_unique (profileManager s)"
proof -
  obtain s ts where c: "schedule [1, 2, 1, 2] (race_config example_connect example_connect) = Some (s, ts)"
    and p: "length (profileHeap (profileManager s)) = 2" "GetHandle 0 (profileManager s) = ''ana''"
      "GetHandle 1 (profileManager s) = ''ana''"
    using dup_schedule by blast
  have "reachable threads_init server_threads (s, ts)"
    by (rule race_reachable [OF example_packets_fit(1,1) c])
  moreover obtain x y where "profileHeap (profileManager s) = [x, y]"
    using p(1) by (auto simp: numeral_2_eq_2 length_Suc_conv)
  ultimately show ?thesis using p by (auto simp: handles_unique_def GetHandle_def intro!: exI)
qed

text \<open>
  C39.  The race on the sequence counter: two connections whose handlers read the counter before
  either advances it wait for the same three numbers, so that the confirmations of one complete the
  other as well.
\<close>

theorem counter_race:
  "\<exists>s ts c c'. reachable threads_init server_threads (s, ts) \<and>
    confirmationBuffer (replicaManager s) = Some [c, c'] \<and> originalHost c \<noteq> originalHost c' \<and>
    awaited [c] = awaited [c'] \<and> \<not> ContainerConfirmed c' \<and> ContainerConfirmed (fold mark (awaited [c]) c')"
proof -
  obtain s ts c c' where sch: "schedule ([1, 1, 1, 1, 1, 1, 1, 1, 1, 1, 1, 1] @ [2, 2, 2, 2, 2, 2, 2, 2, 2, 2, 2, 2, 2] @
      [1, 1, 1, 1, 1, 1, 1] @ [2, 2, 2, 2, 2, 2, 2]) (race_config example_connect example_connect_bia) = Some (s, ts)"
    and b: "confirmationBuffer (replicaManager s) = Some [c, c']" "awaited [c] = [0, 1, 2]" "awaited [c'] = [0, 1, 2]"
      "originalHost c = Some (race_addr 1)" "originalHost c' = Some (race_addr 2)" "\<not> ContainerConfirmed c'"
    using numbers_schedule by blast
  have "reachable threads_init server_threads (s, ts)"
    by (rule race_reachable [OF example_packets_fit sch])
  moreover have "ContainerConfirmed (fold mark (awaited [c]) c')"
    unfolding awaited_complete using b(2,3) by (auto simp: awaited_def)
  ultimately show ?thesis using b by (auto simp: race_addr_def)
qed

end
