(* ===== verification/Network.thy ===== *)
theory Network
  imports Cluster Interleaving
begin

text \<open>
  The cluster over its network: a primary, three secondaries and every datagram any of them has
  sent.  A datagram may arrive at any time after it was sent, any number of times or never, and in
  any order.  Each packet is handled as a whole before the next one: the interleaving of handlers is
  the subject of \<open>Interleaving\<close>, where two requests under the same numbers are shown to be possible.
  Clients send the primary any packet except the confirmations of the replicas, and send nothing to
  the secondaries; the program enforces neither.  Under these conditions the properties are the
  point of the replication protocol: a client is accepted only when all four servers have its
  profile, and a connection can always be completed when the network delivers.
\<close>

section \<open>What a handler changes\<close>

definition knows :: "string \<Rightarrow> Server \<Rightarrow> bool" where
  "knows u s \<longleftrightarrow> GetProfileByName u (profileManager s) \<noteq> None"

lemma knows_iff:
  "profile_inv (profileManager s) \<Longrightarrow> knows u s \<longleftrightarrow>
    (\<exists>p < length (profileHeap (profileManager s)). GetHandle p (profileManager s) = u)"
  using GetProfileByName_None [of "profileManager s" u] by (auto simp: knows_def)

lemma server_ok_profiles: "server_ok s \<Longrightarrow> profile_inv (profileManager s)"
  by (simp add: server_ok_def server_inv_def store_inv_def)

lemma knows_grows:
  assumes "server_ok s" and "server_ok s'" and "knows u s"
    and "length (profileHeap (profileManager s)) \<le> length (profileHeap (profileManager s'))"
    and "\<And>p. p < length (profileHeap (profileManager s)) \<Longrightarrow> GetHandle p (profileManager s') = GetHandle p (profileManager s)"
  shows "knows u s'"
  using assms(3-5) unfolding knows_iff [OF server_ok_profiles [OF assms(1)]] knows_iff [OF server_ok_profiles [OF assms(2)]]
  by (metis less_le_trans)

lemma handler_ok: "server_ok s \<Longrightarrow> MessageHandler os m a s = Inr s' \<Longrightarrow> server_ok s'"
  by (rule server_step_ok) (auto intro: server_step.intros)

text \<open>A packet that is neither CONNECT nor CONFIRM does not touch what replication uses.\<close>

definition store_frame :: "Server \<Rightarrow> Server \<Rightarrow> bool" where
  "store_frame s t \<longleftrightarrow> (\<exists>pm sm q. t = s\<lparr>profileManager := pm, sessionManager := sm, notificationQueue := q\<rparr> \<and>
     length (profileHeap pm) = length (profileHeap (profileManager s)) \<and>
     (\<forall>p. GetHandle p pm = GetHandle p (profileManager s)))"

lemma store_frame_update:
  "length (profileHeap pm) = length (profileHeap (profileManager s)) \<Longrightarrow>
    (\<And>p. GetHandle p pm = GetHandle p (profileManager s)) \<Longrightarrow>
    store_frame s (s\<lparr>profileManager := pm, sessionManager := sm, notificationQueue := q\<rparr>)"
  unfolding store_frame_def by blast

lemma store_frameI:
  "length (profileHeap pm) = length (profileHeap (profileManager s)) \<Longrightarrow>
    (\<And>p. GetHandle p pm = GetHandle p (profileManager s)) \<Longrightarrow> store_frame s (s\<lparr>profileManager := pm\<rparr>)"
  "store_frame s (s\<lparr>sessionManager := sm\<rparr>)" "store_frame s (s\<lparr>notificationQueue := q\<rparr>)" "store_frame s s"
  using store_frame_update [where pm = pm and s = s and sm = "sessionManager s" and q = "notificationQueue s"]
    store_frame_update [where pm = "profileManager s" and s = s and sm = sm and q = "notificationQueue s"]
    store_frame_update [where pm = "profileManager s" and s = s and sm = "sessionManager s" and q = q]
    store_frame_update [where pm = "profileManager s" and s = s and sm = "sessionManager s" and q = "notificationQueue s"] by simp_all

lemma other_frame:
  assumes "server_ok s" and "MessageHandler os m a s = Inr s'"
    and "ptype m \<noteq> PACKET_CONNECT_CMD" and "ptype m \<noteq> PACKET_CONFIRM_STATE_CHANGE"
  shows "store_frame s s'"
proof -
  have send: "store_frame s t" if "res_fold (\<lambda>f s. res_bind (packet_text m) (\<lambda>b.
      Inr (s\<lparr>notificationQueue := notificationQueue s @ [PendingNotification_new u b f]\<rparr>))) fs s = Inr t" for u fs t
  proof -
    have "\<exists>q. t = s\<lparr>notificationQueue := q\<rparr>"
      by (rule res_fold_invariant [OF that]) (auto simp: res_simps intro: exI [of _ "notificationQueue s"])
    then show ?thesis using store_frameI(3) by blast
  qed
  have pi: "profile_inv (profileManager s)" by (rule server_ok_profiles [OF assms(1)])
  have follow: "store_frame s (s\<lparr>profileManager := snd (AddFollower p u True (profileManager s))\<rparr>)" for p u
    by (rule store_frameI) (simp_all add: AddFollower_heap [OF pi])
  from assms(2-4) consider (d) "handle_DISCONNECT m a s = Inr s'" | (f) "handle_FOLLOW m a s = Inr s'"
    | (s) "handle_SEND m a s = Inr s'" | (i) "handle_USER_INFO a s = Inr s'" | (x) "s' = s"
    by (auto simp: MessageHandler_def res_simps split: if_splits)
  then show ?thesis
  proof cases
    case d
    then show ?thesis using store_frameI(2,4)
      by (auto simp: handle_DISCONNECT_def res_simps split_def Let_def split: option.splits)
  next
    case f
    then show ?thesis using handle_FOLLOW_cases [OF f] follow store_frameI(4) by blast
  next
    case s
    then show ?thesis using store_frameI(4) send by (auto simp: handle_SEND_def split: option.splits)
  next
    case i
    then show ?thesis using store_frameI(4) by (auto simp: handle_USER_INFO_def res_simps split: option.splits)
  next
    case x
    then show ?thesis using store_frameI(4) by simp
  qed
qed

lemma store_frame_simps:
  assumes "store_frame s s'"
  shows "sent s' = sent s" "lastSeqn s' = lastSeqn s" "replicaManager s' = replicaManager s" "srv_socket s' = srv_socket s"
    "server_ok s \<Longrightarrow> server_ok s' \<Longrightarrow> knows u s \<Longrightarrow> knows u s'"
proof -
  obtain pm sm q where s': "s' = s\<lparr>profileManager := pm, sessionManager := sm, notificationQueue := q\<rparr>"
    "length (profileHeap pm) = length (profileHeap (profileManager s))"
    "\<And>p. GetHandle p pm = GetHandle p (profileManager s)"
    using assms by (auto simp: store_frame_def)
  then show "sent s' = sent s" "lastSeqn s' = lastSeqn s" "replicaManager s' = replicaManager s" "srv_socket s' = srv_socket s"
    by simp_all
  show "server_ok s \<Longrightarrow> server_ok s' \<Longrightarrow> knows u s \<Longrightarrow> knows u s'"
    by (rule knows_grows) (simp_all add: s')
qed

lemma worker_frame:
  assumes "Worker_round os s = Inr s'"
  shows "\<exists>n q out. s' = s\<lparr>lastSeqn := n, notificationQueue := q, sent := sent s @ out\<rparr> \<and>
    (\<forall>(h, p) \<in> set out. ptype p = PACKET_NOTIFICATION)"
proof -
  let ?Q = "\<lambda>t :: Server. \<exists>n q out. t = s\<lparr>lastSeqn := n, notificationQueue := q, sent := sent s @ out\<rparr> \<and>
    (\<forall>(h, p) \<in> set out. ptype p = PACKET_NOTIFICATION)"
  have same: "?Q (s\<lparr>notificationQueue := q\<rparr>)" for q
    by (rule exI [of _ "lastSeqn s"], rule exI [of _ q], rule exI [of _ "[]"]) simp
  have one: "?Q t'" if "notify os n a t = Inr t'" "?Q t" for n a t t'
  proof -
    note h = that
    obtain p where p: "MakeNotification (os_time os) (lastSeqn t + 1) (pn_body n) (senderUsername n) = Inr p"
      "t' = t\<lparr>lastSeqn := lastSeqn t + 1, sent := sent t @ datagrams os (srv_socket t) [(a, p)]\<rparr>"
      using h(1) unfolding notify_eq res_bind_Inr_conv by blast
    have "ptype p = PACKET_NOTIFICATION"
      using p(1) strcpy_payload_InrD(2) by (fastforce simp: MakeNotification_def Let_def)
    moreover obtain k q out where "t = s\<lparr>lastSeqn := k, notificationQueue := q, sent := sent s @ out\<rparr>"
      "\<forall>(h, p) \<in> set out. ptype p = PACKET_NOTIFICATION" using h(2) by blast
    ultimately show ?thesis
      by (intro exI [of _ "lastSeqn t + 1"] exI [of _ q] exI [of _ "out @ datagrams os (srv_socket t) [(a, p)]"])
        (auto simp: p(2))
  qed
  show ?thesis
  proof (cases "notificationQueue s")
    case Nil
    then have "s' = s\<lparr>notificationQueue := notificationQueue s\<rparr>" using assms by (simp add: Worker_round_def)
    then show ?thesis using same by (simp only:)
  next
    case (Cons n ns)
    then consider ss where "res_fold (notify os n) ss (s\<lparr>notificationQueue := ns\<rparr>) = Inr s'"
      | "s' = s\<lparr>notificationQueue := ns @ [n]\<rparr>"
      using assms by (auto simp: Worker_round_def Let_def res_simps split: if_splits)
    then show ?thesis
    proof cases
      case 1
      from 1 same show ?thesis by (rule res_fold_invariant) (blast intro: one)
    qed (use same in simp)
  qed
qed

text \<open>Connecting keeps every profile and makes the user known.\<close>

lemma connect_store_knows:
  assumes "store_inv pm sm" and "connect_store u a pm sm = (p, ses, pm', sm')"
  shows "length (profileHeap pm) \<le> length (profileHeap pm')" "GetProfileByName u pm' \<noteq> None"
    "\<And>q. q < length (profileHeap pm) \<Longrightarrow> GetHandle q pm' = GetHandle q pm"
proof -
  obtain pm1 where fc: "find_or_create u pm = (p, pm1)"
    and pm': "pm' = (case ses of Some q \<Rightarrow> SetSession p (SessionAt q) pm1 | None \<Rightarrow> pm1)"
    using assms(2) by (auto simp: connect_store_def Let_def split: prod.splits)
  note f = find_or_create_store [OF assms(1) fc] and i = connect_store_inv [OF assms]
  show "length (profileHeap pm) \<le> length (profileHeap pm')" by (rule i(4))
  show "GetHandle q pm' = GetHandle q pm" if "q < length (profileHeap pm)" for q
    using f(6) [OF that] by (simp add: pm' SetSession_heap split: option.split)
  have "profile_inv pm'" using i(1) by (simp add: store_inv_def)
  then show "GetProfileByName u pm' \<noteq> None" using GetProfileByName_None [of pm' u] i(2,3) by blast
qed

lemma connect_handled:
  assumes "server_ok s" and "ptype m = PACKET_CONNECT_CMD" and "MessageHandler os m a s = Inr s'"
  obtains u t where "packet_text m = Inr u" "knows u t" "server_ok t" "\<And>w. knows w s \<Longrightarrow> knows w t"
    "sent t = sent s" "lastSeqn t = lastSeqn s" "replicaManager t = replicaManager s" "srv_socket t = srv_socket s"
    "replicate_state os m a t = Inr s'"
proof -
  obtain u where u: "packet_text m = Inr u"
    using assms(2,3) unreadable_payload(1) [of m _ os a s] by (cases "packet_text m") (auto simp: MessageHandler_def)
  obtain p ses pm sm where c: "connect_store u a (profileManager s) (sessionManager s) = (p, ses, pm, sm)"
    by (metis prod_cases4)
  have si: "store_inv (profileManager s) (sessionManager s)" using assms(1) by (simp add: server_ok_def server_inv_def)
  note k = connect_store_knows [OF si c]
  let ?t = "s\<lparr>profileManager := pm, sessionManager := sm\<rparr>"
  have ok: "server_ok ?t"
    using assms(1) connect_store_inv(1,4) [OF si c] connect_store_known [OF si _ c]
    by (fastforce simp: server_ok_def server_inv_def)
  show ?thesis
  proof (rule that [of u ?t])
    show "knows w ?t" if "knows w s" for w by (rule knows_grows [OF assms(1) ok that]) (use k in simp_all)
    show "replicate_state os m a ?t = Inr s'" using handle_CONNECT_ok_eq [OF assms(1,2) u c, of os] assms(3) by simp
  qed (use u k(2) ok in \<open>simp_all add: knows_def\<close>)
qed

section \<open>Pending entries\<close>

definition base :: "ConfirmableContainer \<Rightarrow> nat" where
  "base c = unat (sequenceNumber (item (content c ! 0)))"

definition user_of :: "ConfirmableContainer \<Rightarrow> string" where
  "user_of c = projr (packet_text (the (bm_packet (item (content c ! 0)))))"

text \<open>An entry for a readable request, with three consecutive numbers.\<close>

definition numbered :: "ConfirmableContainer \<Rightarrow> bool" where
  "numbered c \<longleftrightarrow> length (content c) = 3 \<and>
     (\<exists>m. bm_packet (item (content c ! 0)) = Some m \<and> packet_text m = Inr (user_of c) \<and> originalSeqn c = seqn m) \<and>
     (\<forall>j < 3. unat (sequenceNumber (item (content c ! j))) = base c + j)"

text \<open>Entries with their numbers one after the other, all below the counter.\<close>

definition spaced :: "ConfirmationBuffer \<Rightarrow> nat \<Rightarrow> bool" where
  "spaced b n \<longleftrightarrow> sorted_wrt (\<lambda>c c'. base c + 3 \<le> base c') b \<and> (\<forall>c \<in> set b. numbered c \<and> base c + 3 \<le> n)"

lemma spaced_unique:
  assumes "spaced b n" and "c \<in> set b" and "c' \<in> set b" and "base c + j = base c' + j'" and "j < 3" and "j' < 3"
  shows "c' = c" "j' = j"
proof -
  obtain i i' where i: "i < length b" "c = b ! i" "i' < length b" "c' = b ! i'"
    using assms(2,3) by (auto simp: in_set_conv_nth)
  have "base (b ! x) + 3 \<le> base (b ! y)" if "x < y" "y < length b" for x y
    using assms(1) that by (simp add: spaced_def sorted_wrt_iff_nth_less)
  from this [of i i'] this [of i' i] i assms(4-6) have "i = i'" by (cases i i' rule: linorder_cases) auto
  then show "c' = c" "j' = j" using i assms(4) by auto
qed

lemma mark_nth:
  assumes "j < length (content c)"
  shows "sequenceNumber (item (content (mark k c) ! j)) = sequenceNumber (item (content c ! j))"
    "bm_packet (item (content (mark k c) ! j)) = bm_packet (item (content c ! j))"
    "confirmed (content (mark k c) ! j) \<longleftrightarrow> confirmed (content c ! j) \<or> sequenceNumber (item (content c ! j)) = k"
  using assms by (auto simp: mark_def)

lemma mark_entry:
  assumes "numbered c"
  shows "base (mark k c) = base c" "user_of (mark k c) = user_of c" "numbered (mark k c)"
proof -
  have l: "length (content c) = 3" using assms by (simp add: numbered_def)
  then show b: "base (mark k c) = base c" and u: "user_of (mark k c) = user_of c"
    by (simp_all add: base_def user_of_def mark_nth)
  show "numbered (mark k c)" using assms l by (simp add: numbered_def b u mark_nth)
qed

lemma spaced_mark:
  assumes "spaced b n"
  shows "spaced (map (mark k) b) n"
proof -
  have "sorted_wrt (\<lambda>c c'. base (mark k c) + 3 \<le> base (mark k c')) b"
    by (rule sorted_wrt_mono_rel [of b "\<lambda>c c'. base c + 3 \<le> base c'"]) (use assms in \<open>auto simp: spaced_def mark_entry\<close>)
  then show ?thesis using assms by (auto simp: spaced_def sorted_wrt_map mark_entry)
qed

lemma spaced_mono: "spaced b n \<Longrightarrow> n \<le> n' \<Longrightarrow> spaced b n'"
  by (fastforce simp: spaced_def)

text \<open>The entry that a broadcast pushes.\<close>

definition new_entry :: "u64 \<Rightarrow> Packet \<Rightarrow> SocketAddress \<Rightarrow> ConfirmableContainer" where
  "new_entry n m a = \<lparr>content = fresh_items (map (\<lambda>n. BaseMessage2 n m) [n, n + 1, n + 2]), originalSeqn = seqn m,
     originalHost = Some a\<rparr>"

lemma less_3: "j < 3 \<longleftrightarrow> j = 0 \<or> j = 1 \<or> j = (2 :: nat)"
  by auto

lemma new_entry_facts:
  assumes "packet_text m = Inr u" and "unat n + 3 < 2 ^ 64"
  shows "base (new_entry n m a) = unat n" "user_of (new_entry n m a) = u" "numbered (new_entry n m a)"
    "j < 3 \<Longrightarrow> \<not> confirmed (content (new_entry n m a) ! j)" "\<not> ContainerConfirmed (new_entry n m a)"
  using assms
  by (auto simp: base_def user_of_def numbered_def new_entry_def fresh_items_def BaseMessage2_def less_3
      unat_word_ariths ContainerConfirmed_iff)

lemma spaced_push:
  assumes "spaced b (unat n)" and "packet_text m = Inr u" and "unat n + 3 < 2 ^ 64"
  shows "spaced (b @ [new_entry n m a]) (unat (n + 3))"
proof -
  have "unat (n + 3) = unat n + 3" using assms(3) by (simp add: unat_word_ariths)
  then show ?thesis
    using assms(1) new_entry_facts [OF assms(2,3), where a = a] by (fastforce simp: spaced_def sorted_wrt_append)
qed

section \<open>The network\<close>

record Network =
  net_primary :: Server
  net_secondaries :: "Server list"

definition secondary_addrs :: "Os \<Rightarrow> Server \<Rightarrow> sockaddr_in list" where
  "secondary_addrs os P = map (\<lambda>p. recipient_of os (GetSocketAddress p)) (GetSecondaryReplicas (replicaManager P))"

definition primary_addr :: "Os \<Rightarrow> Server \<Rightarrow> sockaddr_in" where
  "primary_addr os P = recipient_of os (GetSocketAddress (thisPeer (replicaManager P)))"

text \<open>
  A handler runs with a clock and a \<open>sendto\<close> of its own moment; the conversion of addresses is
  the same everywhere.  The counter of the primary does not wrap around.
\<close>

definition same_addresses :: "Os \<Rightarrow> Os \<Rightarrow> bool" where
  "same_addresses os os' \<longleftrightarrow> os_inet_addr os' = os_inet_addr os"

inductive net_step :: "Os \<Rightarrow> Network \<Rightarrow> Network \<Rightarrow> bool" for os :: Os where
  request: "same_addresses os os' \<Longrightarrow> ptype m \<noteq> PACKET_CONFIRM_STATE_CHANGE \<Longrightarrow>
    MessageHandler os' m a (net_primary N) = Inr P \<Longrightarrow> lastSeqn (net_primary N) \<le> lastSeqn P \<Longrightarrow>
    net_step os N (N\<lparr>net_primary := P\<rparr>)"
| work: "same_addresses os os' \<Longrightarrow> Worker_round os' (net_primary N) = Inr P \<Longrightarrow>
    lastSeqn (net_primary N) \<le> lastSeqn P \<Longrightarrow> net_step os N (N\<lparr>net_primary := P\<rparr>)"
| copy_arrives: "same_addresses os os' \<Longrightarrow> i < length (net_secondaries N) \<Longrightarrow>
    (secondary_addrs os (net_primary N) ! i, m) \<in> set (sent (net_primary N)) \<Longrightarrow>
    MessageHandler os' m a (net_secondaries N ! i) = Inr S \<Longrightarrow>
    net_step os N (N\<lparr>net_secondaries := (net_secondaries N)[i := S]\<rparr>)"
| answer_arrives: "same_addresses os os' \<Longrightarrow> i < length (net_secondaries N) \<Longrightarrow>
    (primary_addr os (net_primary N), m) \<in> set (sent (net_secondaries N ! i)) \<Longrightarrow>
    MessageHandler os' m a (net_primary N) = Inr P \<Longrightarrow> net_step os N (N\<lparr>net_primary := P\<rparr>)"

definition net_init :: "Os \<Rightarrow> Network \<Rightarrow> bool" where
  "net_init os N \<longleftrightarrow> server_init (net_primary N) \<and> IsPrimary (replicaManager (net_primary N)) \<and>
     length (net_secondaries N) = 3 \<and> length (secondary_addrs os (net_primary N)) = 3 \<and>
     distinct (secondary_addrs os (net_primary N)) \<and>
     (\<forall>S \<in> set (net_secondaries N). server_init S \<and> \<not> IsPrimary (replicaManager S) \<and>
        (\<forall>p. List.find peer_primary (peers (replicaManager S)) = Some p \<longrightarrow>
           recipient_of os (GetSocketAddress p) = primary_addr os (net_primary N)))"

lemma recipient_same: "same_addresses os os' \<Longrightarrow> recipient_of os' a = recipient_of os a"
  by (simp add: same_addresses_def recipient_of_def)

section \<open>Invariant\<close>

text \<open>Where a datagram comes from: a copy of a pending request, the ACCEPT of a complete one, or a
  notification; and from a secondary the confirmation of a copy whose user it knows.\<close>

definition from_primary :: "Os \<Rightarrow> sockaddr_in list \<Rightarrow> ConfirmationBuffer \<Rightarrow> sockaddr_in \<times> Packet \<Rightarrow> bool" where
  "from_primary os addr b = (\<lambda>(h, p).
     ptype p = PACKET_CONNECT_CMD \<and> (\<exists>c \<in> set b. \<exists>j < 3. h = addr ! j \<and> unat (seqn p) = base c + j \<and>
       packet_text p = Inr (user_of c)) \<or>
     ptype p = PACKET_ACCEPT_CONN_CMD \<and> (\<exists>c \<in> set b. ContainerConfirmed c \<and>
       h = recipient_of os (the (originalHost c)) \<and> seqn p = originalSeqn c + 1) \<or>
     ptype p = PACKET_NOTIFICATION)"

definition from_secondary :: "ConfirmationBuffer \<Rightarrow> nat \<Rightarrow> Server \<Rightarrow> sockaddr_in \<times> Packet \<Rightarrow> bool" where
  "from_secondary b i S = (\<lambda>(h, p). ptype p = PACKET_CONFIRM_STATE_CHANGE \<and>
     (\<exists>c \<in> set b. unat (seqn p) = base c + i \<and> knows (user_of c) S))"

definition entry_inv :: "Server \<Rightarrow> Server list \<Rightarrow> ConfirmableContainer \<Rightarrow> bool" where
  "entry_inv P Ss c \<longleftrightarrow> knows (user_of c) P \<and> (\<forall>j < 3. confirmed (content c ! j) \<longrightarrow> knows (user_of c) (Ss ! j))"

definition buffer_inv :: "Os \<Rightarrow> Network \<Rightarrow> ConfirmationBuffer \<Rightarrow> bool" where
  "buffer_inv os N b \<longleftrightarrow> spaced b (unat (lastSeqn (net_primary N))) \<and>
     (\<forall>c \<in> set b. entry_inv (net_primary N) (net_secondaries N) c) \<and>
     (\<forall>x \<in> set (sent (net_primary N)). from_primary os (secondary_addrs os (net_primary N)) b x) \<and>
     (\<forall>i < 3. \<forall>x \<in> set (sent (net_secondaries N ! i)). from_secondary b i (net_secondaries N ! i) x)"

definition hosts_inv :: "Os \<Rightarrow> Network \<Rightarrow> bool" where
  "hosts_inv os N \<longleftrightarrow> server_ok (net_primary N) \<and> IsPrimary (replicaManager (net_primary N)) \<and>
     length (net_secondaries N) = 3 \<and> length (secondary_addrs os (net_primary N)) = 3 \<and>
     distinct (secondary_addrs os (net_primary N)) \<and>
     (\<forall>S \<in> set (net_secondaries N). server_ok S \<and> \<not> IsPrimary (replicaManager S) \<and>
        (\<forall>p. List.find peer_primary (peers (replicaManager S)) = Some p \<longrightarrow>
           recipient_of os (GetSocketAddress p) = primary_addr os (net_primary N)))"

definition net_inv :: "Os \<Rightarrow> Network \<Rightarrow> bool" where
  "net_inv os N \<longleftrightarrow> hosts_inv os N \<and>
     (\<exists>b. confirmationBuffer (replicaManager (net_primary N)) = Some b \<and> buffer_inv os N b)"

text \<open>A buffer that still has all entries, with what was confirmed.\<close>

definition extended :: "ConfirmationBuffer \<Rightarrow> ConfirmationBuffer \<Rightarrow> bool" where
  "extended b b' \<longleftrightarrow> (\<forall>c \<in> set b. \<exists>c' \<in> set b'. base c' = base c \<and> user_of c' = user_of c \<and>
     originalHost c' = originalHost c \<and> originalSeqn c' = originalSeqn c \<and>
     (ContainerConfirmed c \<longrightarrow> ContainerConfirmed c'))"

lemma extended_facts:
  "extended b b" "extended b (b @ [c])" "spaced b n \<Longrightarrow> extended b (map (mark k) b)"
  by (auto simp: extended_def spaced_def mark_entry mark_ContainerConfirmed)

lemma from_primary_mono:
  assumes "from_primary os addr b x" and "extended b b'"
  shows "from_primary os addr b' x"
proof -
  obtain h p where x: "x = (h, p)" by fastforce
  consider (c) c j where "ptype p = PACKET_CONNECT_CMD" "c \<in> set b" "j < 3" "h = addr ! j" "unat (seqn p) = base c + j"
      "packet_text p = Inr (user_of c)"
    | (a) c where "ptype p = PACKET_ACCEPT_CONN_CMD" "c \<in> set b" "ContainerConfirmed c"
      "h = recipient_of os (the (originalHost c))" "seqn p = originalSeqn c + 1"
    | (n) "ptype p = PACKET_NOTIFICATION"
    using assms(1) unfolding from_primary_def x by blast
  then show ?thesis
  proof cases
    case c
    obtain c' where "c' \<in> set b'" "base c' = base c" "user_of c' = user_of c" using assms(2) c(2) by (auto simp: extended_def)
    then show ?thesis using c unfolding from_primary_def x prod.case by metis
  next
    case a
    obtain c' where "c' \<in> set b'" "originalHost c' = originalHost c" "originalSeqn c' = originalSeqn c" "ContainerConfirmed c'"
      using assms(2) a(2,3) unfolding extended_def by blast
    then show ?thesis using a unfolding from_primary_def x prod.case by metis
  qed (simp add: from_primary_def x)
qed

lemma from_secondary_mono:
  assumes "from_secondary b i S x" and "extended b b'" and "\<And>u. knows u S \<Longrightarrow> knows u S'"
  shows "from_secondary b' i S' x"
proof -
  obtain h p where x: "x = (h, p)" by fastforce
  obtain c where c: "ptype p = PACKET_CONFIRM_STATE_CHANGE" "c \<in> set b" "unat (seqn p) = base c + i" "knows (user_of c) S"
    using assms(1) unfolding from_secondary_def x by blast
  obtain c' where "c' \<in> set b'" "base c' = base c" "user_of c' = user_of c" using assms(2) c(2) by (auto simp: extended_def)
  then show ?thesis using c assms(3) unfolding from_secondary_def x prod.case by metis
qed

lemma secondary_addrs_same: "same_host (replicaManager P) (replicaManager P') \<Longrightarrow> secondary_addrs os P' = secondary_addrs os P"
  by (simp add: same_host_def secondary_addrs_def GetSecondaryReplicas_def)

text \<open>A step of the primary that keeps its configuration and extends the buffer.\<close>

lemma primary_step:
  assumes "hosts_inv os N" and "buffer_inv os N b" and "server_ok P"
    and "same_host (replicaManager (net_primary N)) (replicaManager P)"
    and "confirmationBuffer (replicaManager P) = Some b'" and "extended b b'" and "spaced b' (unat (lastSeqn P))"
    and "\<forall>c \<in> set b'. entry_inv P (net_secondaries N) c" and "sent P = sent (net_primary N) @ out"
    and "\<forall>x \<in> set out. from_primary os (secondary_addrs os (net_primary N)) b' x"
  shows "net_inv os (N\<lparr>net_primary := P\<rparr>)"
proof -
  have addr: "secondary_addrs os P = secondary_addrs os (net_primary N)" by (rule secondary_addrs_same [OF assms(4)])
  have "primary_addr os P = primary_addr os (net_primary N)" using assms(4) by (simp add: primary_addr_def same_host_def)
  then have "hosts_inv os (N\<lparr>net_primary := P\<rparr>)"
    using assms(1,3,4) by (simp add: hosts_inv_def addr)
  moreover have "\<forall>x \<in> set (sent P). from_primary os (secondary_addrs os (net_primary N)) b' x"
    using assms(2,6,9,10) from_primary_mono unfolding buffer_inv_def by (metis Un_iff set_append)
  moreover have "\<forall>i < 3. \<forall>x \<in> set (sent (net_secondaries N ! i)). from_secondary b' i (net_secondaries N ! i) x"
    using assms(2,6) from_secondary_mono unfolding buffer_inv_def by metis
  ultimately show ?thesis using assms(5,7,8) by (simp add: net_inv_def buffer_inv_def addr)
qed

lemma entry_inv_mono: "entry_inv P Ss c \<Longrightarrow> (\<And>u. knows u P \<Longrightarrow> knows u P') \<Longrightarrow> entry_inv P' Ss c"
  by (simp add: entry_inv_def)

lemma counter_room:
  fixes n :: u64
  assumes "n \<le> n + 3"
  shows "unat n + 3 < 2 ^ 64"
proof (rule ccontr)
  assume ge: "\<not> unat n + 3 < 2 ^ 64"
  have lt: "unat n < 2 ^ 64" using unsigned_less [of n, where ?'a = nat] by simp
  then have "unat (n + 3) = unat n + 3 - 2 ^ 64" using ge by (simp add: unat_word_ariths mod_if)
  moreover have "(3 :: nat) < 2 ^ 64" by simp
  ultimately show False using assms lt ge unfolding word_le_nat_alt by arith
qed

text \<open>The copies of a request, in the order of the secondaries.\<close>

lemma copies_from_primary:
  assumes "same_addresses os os'" and "packet_text m = Inr u" and "ptype m = PACKET_CONNECT_CMD" and "unat n + 3 < 2 ^ 64"
    and "length (GetSecondaryReplicas (replicaManager P)) = 3"
    and "x \<in> set (datagrams os' sk (map (\<lambda>(i, p). (GetSocketAddress p, m\<lparr>seqn := n + of_nat i\<rparr>))
      (enumerate 0 (GetSecondaryReplicas (replicaManager P)))))"
  shows "from_primary os (secondary_addrs os P) (b @ [new_entry n m a]) x"
proof -
  let ?ps = "GetSecondaryReplicas (replicaManager P)"
  obtain i where i: "i < 3" "x = (recipient_of os' (GetSocketAddress (?ps ! i)), m\<lparr>seqn := n + of_nat i\<rparr>)"
    using assms(5,6) by (auto simp: datagrams_def in_set_enumerate_eq)
  have "unat (n + of_nat i) = unat n + i" using assms(4) i(1) by (auto simp: unat_word_ariths less_3)
  then have 1: "unat (seqn (m\<lparr>seqn := n + of_nat i\<rparr>)) = base (new_entry n m a) + i"
    using new_entry_facts(1) [OF assms(2,4)] by simp
  have 2: "packet_text (m\<lparr>seqn := n + of_nat i\<rparr>) = Inr (user_of (new_entry n m a))"
    using assms(2) new_entry_facts(2) [OF assms(2,4)] by (simp add: packet_text_def)
  have 3: "recipient_of os' (GetSocketAddress (?ps ! i)) = secondary_addrs os P ! i"
    using i(1) assms(5) recipient_same [OF assms(1)] by (simp add: secondary_addrs_def)
  show ?thesis unfolding i(2) from_primary_def prod.case 3
    by (intro disjI1 conjI bexI [of _ "new_entry n m a"] exI [of _ i]) (use assms(3) i(1) 1 2 in simp_all)
qed

lemma request_inv:
  assumes "hosts_inv os N" and "buffer_inv os N b" and "confirmationBuffer (replicaManager (net_primary N)) = Some b"
    and "same_addresses os os'" and "ptype m \<noteq> PACKET_CONFIRM_STATE_CHANGE"
    and "MessageHandler os' m a (net_primary N) = Inr P" and "lastSeqn (net_primary N) \<le> lastSeqn P"
  shows "net_inv os (N\<lparr>net_primary := P\<rparr>)"
proof (cases "ptype m = PACKET_CONNECT_CMD")
  case False
  have ok: "server_ok (net_primary N)" using assms(1) by (simp add: hosts_inv_def)
  note ok' = handler_ok [OF ok assms(6)]
  note f = store_frame_simps [OF other_frame [OF ok assms(6) False assms(5)]]
  show ?thesis
    by (rule primary_step [OF assms(1,2) ok' _ _ extended_facts(1), where out = "[]"])
      (use assms(2,3) f(1-3) f(5) [OF ok ok'] in \<open>auto simp: buffer_inv_def intro: entry_inv_mono\<close>)
next
  case True
  let ?P = "net_primary N"
  have ok: "server_ok ?P" and prim: "IsPrimary (replicaManager ?P)"
    and l3: "length (GetSecondaryReplicas (replicaManager ?P)) = 3"
    using assms(1) by (auto simp: hosts_inv_def secondary_addrs_def)
  obtain u t where t: "packet_text m = Inr u" "knows u t" "server_ok t" "\<And>w. knows w ?P \<Longrightarrow> knows w t"
    "sent t = sent ?P" "lastSeqn t = lastSeqn ?P" "replicaManager t = replicaManager ?P" "srv_socket t = srv_socket ?P"
    "replicate_state os' m a t = Inr P"
    by (rule connect_handled [OF ok True assms(6)]) blast
  let ?n = "lastSeqn ?P" and ?c = "new_entry (lastSeqn ?P) m a"
  let ?out = "datagrams os' (srv_socket ?P) (map (\<lambda>(i, p). (GetSocketAddress p, m\<lparr>seqn := ?n + of_nat i\<rparr>))
      (enumerate 0 (GetSecondaryReplicas (replicaManager ?P))))"
  have P: "P = t\<lparr>lastSeqn := ?n + 3, sent := sent ?P @ ?out,
      replicaManager := (replicaManager ?P)\<lparr>confirmationBuffer := Some (b @ [?c])\<rparr>\<rparr>"
    using BroadcastToSecondaries_eq [OF True, of "replicaManager ?P" b os' a t] assms(3) t(5-9) prim
    by (simp add: replicate_state_def Push3_def new_entry_def)
  have room: "unat ?n + 3 < 2 ^ 64" using assms(7) P by (intro counter_room) simp
  have "entry_inv P (net_secondaries N) c" if "c \<in> set (b @ [?c])" for c
  proof (cases "c = ?c")
    case True
    then show ?thesis using new_entry_facts(2,4) [OF t(1) room] t(2) P by (simp add: entry_inv_def knows_def)
  next
    case False
    then have "entry_inv ?P (net_secondaries N) c" using that assms(2) by (simp add: buffer_inv_def)
    then show ?thesis by (rule entry_inv_mono) (use t(4) P in \<open>simp add: knows_def\<close>)
  qed
  then show ?thesis
    by (intro primary_step [OF assms(1,2) handler_ok [OF ok assms(6)] _ _ extended_facts(2) [of b ?c], where out = ?out])
      (use P assms(2) spaced_push [OF _ t(1) room] copies_from_primary [OF assms(4) t(1) True room l3] in
        \<open>simp_all add: same_host_def buffer_inv_def\<close>)
qed

lemma work_inv:
  assumes "hosts_inv os N" and "buffer_inv os N b" and "confirmationBuffer (replicaManager (net_primary N)) = Some b"
    and "Worker_round os' (net_primary N) = Inr P" and "lastSeqn (net_primary N) \<le> lastSeqn P"
  shows "net_inv os (N\<lparr>net_primary := P\<rparr>)"
proof -
  have "server_ok (net_primary N)" using assms(1) by (simp add: hosts_inv_def)
  then have "server_ok P" by (rule server_step_ok) (rule step_work [OF assms(4)])
  moreover obtain n q out where P: "P = (net_primary N)\<lparr>lastSeqn := n, notificationQueue := q, sent := sent (net_primary N) @ out\<rparr>"
    "\<forall>(h, p) \<in> set out. ptype p = PACKET_NOTIFICATION"
    using worker_frame [OF assms(4)] by blast
  moreover have "\<forall>x \<in> set out. from_primary os addr b x" for addr using P(2) by (auto simp: from_primary_def)
  ultimately show ?thesis
    by (intro primary_step [OF assms(1,2) _ _ _ extended_facts(1), where out = out])
      (use assms(2,3,5) in \<open>auto simp: buffer_inv_def word_le_nat_alt knows_def entry_inv_def intro: spaced_mono\<close>)
qed

text \<open>A confirmation that a secondary sent for a copy completes its own part of the entry only.\<close>

lemma answer_inv:
  assumes "hosts_inv os N" and "buffer_inv os N b" and "confirmationBuffer (replicaManager (net_primary N)) = Some b"
    and "same_addresses os os'" and "i < 3" and "(h, m) \<in> set (sent (net_secondaries N ! i))"
    and "MessageHandler os' m a (net_primary N) = Inr P"
  shows "net_inv os (N\<lparr>net_primary := P\<rparr>)"
proof -
  let ?P = "net_primary N" and ?k = "seqn m" and ?Ss = "net_secondaries N"
  have ok: "server_ok ?P" using assms(1) by (simp add: hosts_inv_def)
  then have ri: "replica_inv (replicaManager ?P)" by (simp add: server_ok_def server_inv_def)
  have sp: "spaced b (unat (lastSeqn ?P))" and ei: "\<forall>c \<in> set b. entry_inv ?P ?Ss c" using assms(2) by (auto simp: buffer_inv_def)
  have "from_secondary b i (?Ss ! i) (h, m)" using assms(2,5,6) unfolding buffer_inv_def by blast
  then obtain c where m: "ptype m = PACKET_CONFIRM_STATE_CHANGE" and c: "c \<in> set b" "unat ?k = base c + i"
    "knows (user_of c) (?Ss ! i)" unfolding from_secondary_def by auto
  let ?b = "map (mark ?k) b" and ?acc = "map (accept_of os') (filter ContainerConfirmed (map (mark ?k) b))"
  have P: "P = ?P\<lparr>sent := sent ?P @ datagrams os' (srv_socket ?P) ?acc,
      replicaManager := (replicaManager ?P)\<lparr>confirmationBuffer := Some ?b\<rparr>\<rparr>"
    using ConfirmMessage_primary [OF ri assms(3), of os' ?k ?P] assms(7) m by (simp add: MessageHandler_def handle_CONFIRM_def)
  have "entry_inv P ?Ss (mark ?k d)" if d: "d \<in> set b" for d
  proof -
    have n: "numbered d" using sp d by (simp add: spaced_def)
    then have "knows (user_of d) (?Ss ! j)" if "j < 3" "confirmed (content (mark ?k d) ! j)" for j
    proof (cases "confirmed (content d ! j)")
      case False
      have "length (content d) = 3" using n by (simp add: numbered_def)
      then have "sequenceNumber (item (content d ! j)) = ?k" using False that mark_nth(3) [of j d ?k] by simp
      then have "unat ?k = base d + j" using n that(1) unfolding numbered_def by metis
      then have "base c + i = base d + j" using c(2) by simp
      then have "d = c" "j = i" by (rule spaced_unique [OF sp c(1) d _ assms(5) that(1)])+
      then show ?thesis using c(3) by simp
    qed (use ei d that(1) in \<open>auto simp: entry_inv_def\<close>)
    then show ?thesis using ei d n P by (auto simp: entry_inv_def mark_entry knows_def)
  qed
  moreover have "from_primary os addr ?b x" if x: "x \<in> set (datagrams os' (srv_socket ?P) ?acc)" for addr x
  proof -
    obtain d where d: "d \<in> set b" "ContainerConfirmed (mark ?k d)"
      "x = (recipient_of os' (fst (accept_of os' d)), snd (accept_of os' d))"
      using x by (auto simp: datagrams_def split_def)
    then have e: "mark ?k d \<in> set ?b" "ContainerConfirmed (mark ?k d)"
      "x = (recipient_of os' (fst (accept_of os' (mark ?k d))), snd (accept_of os' (mark ?k d)))" by auto
    show ?thesis unfolding e(3) from_primary_def prod.case
      by (intro disjI2 disjI1 conjI bexI [OF _ e(1)])
        (use e(2) recipient_same [OF assms(4)] in \<open>auto simp: accept_of_def MakeAcceptConnCommand_def\<close>)
  qed
  ultimately show ?thesis
    by (intro primary_step [OF assms(1,2) handler_ok [OF ok assms(7)] _ _ extended_facts(3) [OF sp, of ?k],
          where out = "datagrams os' (srv_socket ?P) ?acc"])
      (use P spaced_mark [OF sp, of ?k] in \<open>simp_all add: same_host_def\<close>)
qed

text \<open>A step of a secondary.\<close>

lemma secondary_step:
  assumes "hosts_inv os N" and "buffer_inv os N b" and "confirmationBuffer (replicaManager (net_primary N)) = Some b"
    and "i < 3" and "server_ok S" and "same_host (replicaManager (net_secondaries N ! i)) (replicaManager S)"
    and "\<And>u. knows u (net_secondaries N ! i) \<Longrightarrow> knows u S" and "sent S = sent (net_secondaries N ! i) @ out"
    and "\<forall>x \<in> set out. from_secondary b i S x"
  shows "net_inv os (N\<lparr>net_secondaries := (net_secondaries N)[i := S]\<rparr>)"
proof -
  let ?Ss = "net_secondaries N"
  have l: "length ?Ss = 3" using assms(1) by (simp add: hosts_inv_def)
  have nth: "?Ss[i := S] ! j = (if j = i then S else ?Ss ! j)" for j using l assms(4) by (simp add: nth_list_update)
  have "?Ss ! i \<in> set ?Ss" using l assms(4) by simp
  then have "\<not> IsPrimary (replicaManager S) \<and> (\<forall>p. List.find peer_primary (peers (replicaManager S)) = Some p \<longrightarrow>
      recipient_of os (GetSocketAddress p) = primary_addr os (net_primary N))"
    using assms(1,6) by (auto simp: hosts_inv_def same_host_def IsPrimary_def)
  then have "hosts_inv os (N\<lparr>net_secondaries := ?Ss[i := S]\<rparr>)"
    using assms(1,5) by (auto simp: hosts_inv_def dest!: set_update_subset_insert [THEN subsetD])
  moreover have "entry_inv (net_primary N) (?Ss[i := S]) c" if "c \<in> set b" for c
    using assms(2,7) that unfolding buffer_inv_def entry_inv_def nth by auto
  moreover have "from_secondary b j (?Ss[i := S] ! j) x" if "j < 3" "x \<in> set (sent (?Ss[i := S] ! j))" for j x
  proof (cases "j = i")
    case True
    have "from_secondary b i S x" if "x \<in> set (sent (?Ss ! i))"
      using assms(2,4,7) that from_secondary_mono [OF _ extended_facts(1)] unfolding buffer_inv_def by metis
    then show ?thesis using True that assms(8,9) by (auto simp: nth)
  qed (use assms(2) that in \<open>auto simp: buffer_inv_def nth\<close>)
  ultimately show ?thesis using assms(2,3) by (simp add: net_inv_def buffer_inv_def)
qed

lemma secondary_replicates:
  assumes "server_ok t" and "\<not> IsPrimary (replicaManager t)" and "replicate_state os m a t = Inr S"
  shows "\<exists>pr. List.find peer_primary (peers (replicaManager t)) = Some pr \<and>
    S = t\<lparr>sent := sent t @ datagrams os (srv_socket t) [(GetSocketAddress pr, confirm_packet os (seqn m))]\<rparr>"
proof -
  obtain pr where pr: "List.find peer_primary (peers (replicaManager t)) = Some pr"
    using find_primary assms(1,2) by (auto simp: server_ok_def)
  let ?p = "confirm_packet os (seqn m)"
  obtain r where "socket_send os (GetSocketAddress pr) ?p t =
      Inr (r, t\<lparr>sent := sent t @ datagrams os (srv_socket t) [(GetSocketAddress pr, ?p)]\<rparr>)"
    using socket_send_eq [of ?p os "GetSocketAddress pr" t] by (auto simp: MakeConfirmStateChangeMessage_def)
  then show ?thesis
    using assms(2,3) pr by (auto simp: replicate_state_def ConfirmMessage_def GetPrimaryReplica_def)
qed

lemma copy_inv:
  assumes "hosts_inv os N" and "buffer_inv os N b" and "confirmationBuffer (replicaManager (net_primary N)) = Some b"
    and "i < 3" and "(secondary_addrs os (net_primary N) ! i, m) \<in> set (sent (net_primary N))"
    and "MessageHandler os' m a (net_secondaries N ! i) = Inr S"
  shows "net_inv os (N\<lparr>net_secondaries := (net_secondaries N)[i := S]\<rparr>)"
proof -
  let ?S = "net_secondaries N ! i" and ?addr = "secondary_addrs os (net_primary N)"
  have hosts: "length ?addr = 3" "distinct ?addr" "length (net_secondaries N) = 3" using assms(1) by (auto simp: hosts_inv_def)
  then have S: "server_ok ?S" "\<not> IsPrimary (replicaManager ?S)" using assms(1,4) by (auto simp: hosts_inv_def)
  note S' = handler_ok [OF S(1) assms(6)]
  have fp: "from_primary os ?addr b (?addr ! i, m)" using assms(2,5) by (auto simp: buffer_inv_def)
  show ?thesis
  proof (cases "ptype m = PACKET_CONNECT_CMD")
    case True
    then obtain c j where c: "c \<in> set b" "j < 3" "?addr ! i = ?addr ! j" "unat (seqn m) = base c + j"
      "packet_text m = Inr (user_of c)" using fp by (auto simp: from_primary_def)
    have "j = i" using c(2,3) hosts assms(4) by (simp add: nth_eq_iff_index_eq)
    obtain u t where t: "packet_text m = Inr u" "knows u t" "server_ok t" "\<And>w. knows w ?S \<Longrightarrow> knows w t"
      "sent t = sent ?S" "replicaManager t = replicaManager ?S" "replicate_state os' m a t = Inr S"
      by (rule connect_handled [OF S(1) True assms(6)]) blast
    obtain pr where "S = t\<lparr>sent := sent t @ datagrams os' (srv_socket t) [(GetSocketAddress pr, confirm_packet os' (seqn m))]\<rparr>"
      using secondary_replicates [OF t(3) _ t(7)] S(2) t(6) by auto
    moreover have "from_secondary b i S (h, confirm_packet os' (seqn m))" if "knows u S" for h
      unfolding from_secondary_def prod.case
      by (intro conjI bexI [OF _ c(1)]) (use that c(4,5) t(1) \<open>j = i\<close> in \<open>simp_all add: MakeConfirmStateChangeMessage_def\<close>)
    ultimately show ?thesis
      by (intro secondary_step [OF assms(1-4) S', where out = "datagrams os' (srv_socket t)
          [(GetSocketAddress pr, confirm_packet os' (seqn m))]"])
        (use t(2,4-6) in \<open>auto simp: knows_def\<close>)
  next
    case False
    then have "ptype m \<noteq> PACKET_CONFIRM_STATE_CHANGE" using fp by (auto simp: from_primary_def)
    note f = store_frame_simps [OF other_frame [OF S(1) assms(6) False this]]
    show ?thesis
      by (rule secondary_step [OF assms(1-4) S', where out = "[]"]) (use f(1,3) f(5) [OF S(1) S'] in auto)
  qed
qed

lemma server_init_fresh:
  assumes "server_init s"
  shows "sent s = []" "lastSeqn s = 0" "IsPrimary (replicaManager s) \<Longrightarrow> confirmationBuffer (replicaManager s) = Some []"
  using assms by (auto simp: server_init_def Server_new_fresh res_simps ReplicaManager_new_def IsPrimary_def)

lemma net_init_inv:
  assumes "net_init os N"
  shows "net_inv os N"
proof -
  have P: "server_init (net_primary N)" "IsPrimary (replicaManager (net_primary N))"
    and S: "\<And>i. i < 3 \<Longrightarrow> server_init (net_secondaries N ! i)" using assms by (auto simp: net_init_def)
  have "buffer_inv os N []"
    using server_init_fresh [OF P(1)] server_init_fresh(1) [OF S] by (simp add: buffer_inv_def spaced_def)
  moreover have "hosts_inv os N" using assms server_init_ok by (auto simp: net_init_def hosts_inv_def)
  ultimately show ?thesis using server_init_fresh(3) [OF P] by (simp add: net_inv_def)
qed

lemma net_step_inv:
  assumes "net_inv os N" and "net_step os N N'"
  shows "net_inv os N'"
proof -
  obtain b where b: "hosts_inv os N" "buffer_inv os N b" "confirmationBuffer (replicaManager (net_primary N)) = Some b"
    using assms(1) by (auto simp: net_inv_def)
  have l: "length (net_secondaries N) = 3" using b(1) by (simp add: hosts_inv_def)
  from assms(2) show ?thesis
  proof cases
    case (request os' m a P)
    then show ?thesis using request_inv [OF b] by blast
  next
    case (work os' P)
    then show ?thesis using work_inv [OF b] by blast
  next
    case (copy_arrives os' i m a S)
    then show ?thesis using copy_inv [OF b, of i] l by simp
  next
    case (answer_arrives os' i m a P)
    then show ?thesis using answer_inv [OF b, of os' i] l by simp
  qed
qed

interpretation net: transition_invariant "net_init os" "net_step os" "net_inv os" for os
  by unfold_locales (auto intro: net_init_inv net_step_inv)

section \<open>Completing a connection\<close>

text \<open>A copy that arrives at its secondary makes the confirmation leave for the primary.\<close>

lemma copy_confirmed:
  assumes "hosts_inv os N" and "i < 3" and "(secondary_addrs os (net_primary N) ! i, m) \<in> set (sent (net_primary N))"
    and "ptype m = PACKET_CONNECT_CMD" and "packet_text m = Inr u"
    and "\<forall>a p. delivers os (srv_socket (net_secondaries N ! i)) a p"
  shows "\<exists>S. net_step os N (N\<lparr>net_secondaries := (net_secondaries N)[i := S]\<rparr>) \<and>
    (primary_addr os (net_primary N), confirm_packet os (seqn m)) \<in> set (sent S)"
proof -
  let ?S = "net_secondaries N ! i"
  have S: "server_ok ?S" "\<not> IsPrimary (replicaManager ?S)" "?S \<in> set (net_secondaries N)" and l: "length (net_secondaries N) = 3"
    using assms(1,2) by (auto simp: hosts_inv_def)
  obtain S' where h: "MessageHandler os m example_client ?S = Inr S'"
    using secondary_confirms [OF S(1,2) assms(4-6)] by blast
  obtain w t where t: "packet_text m = Inr w" "server_ok t" "replicaManager t = replicaManager ?S"
    "srv_socket t = srv_socket ?S" "replicate_state os m example_client t = Inr S'"
    by (rule connect_handled [OF S(1) assms(4) h]) blast
  obtain pr where pr: "List.find peer_primary (peers (replicaManager ?S)) = Some pr"
    "S' = t\<lparr>sent := sent t @ datagrams os (srv_socket t) [(GetSocketAddress pr, confirm_packet os (seqn m))]\<rparr>"
    using secondary_replicates [OF t(2) _ t(5)] S(2) t(3) by auto
  have "recipient_of os (GetSocketAddress pr) = primary_addr os (net_primary N)"
    using assms(1) S(3) pr(1) unfolding hosts_inv_def by blast
  then have "(primary_addr os (net_primary N), confirm_packet os (seqn m)) \<in> set (sent S')"
    using pr(2) assms(6) t(4) by simp
  moreover have "net_step os N (N\<lparr>net_secondaries := (net_secondaries N)[i := S']\<rparr>)"
    by (rule copy_arrives [OF _ _ assms(3) h]) (use assms(2) l in \<open>simp_all add: same_addresses_def\<close>)
  ultimately show ?thesis by blast
qed

text \<open>Confirmations that the secondaries have sent can all be delivered.\<close>

lemma answers_delivered:
  assumes "reachable init (net_step os) (N\<lparr>net_primary := P\<rparr>)"
    and "res_fold (\<lambda>(k, a). MessageHandler os (confirm_packet os k) a) kas P = Inr P'"
    and "replica_inv (replicaManager P)" and "confirmationBuffer (replicaManager P) = Some b"
    and "\<forall>(k, a) \<in> set kas. \<exists>i < length (net_secondaries N).
      (primary_addr os P, confirm_packet os k) \<in> set (sent (net_secondaries N ! i))"
  shows "reachable init (net_step os) (N\<lparr>net_primary := P'\<rparr>)"
  using assms
proof (induction kas arbitrary: P b)
  case Nil
  then show ?case by simp
next
  case (Cons ka kas)
  obtain k a where ka: "ka = (k, a)" by fastforce
  let ?Q = "P\<lparr>sent := sent P @ datagrams os (srv_socket P) (map (accept_of os) (filter ContainerConfirmed (map (mark k) b))),
    replicaManager := (replicaManager P)\<lparr>confirmationBuffer := Some (map (mark k) b)\<rparr>\<rparr>"
  have h: "MessageHandler os (confirm_packet os k) a P = Inr ?Q" by (rule primary_confirm [OF Cons.prems(3,4)])
  have inv: "replica_inv (replicaManager ?Q)"
    using replica_inv_Confirm [OF Cons.prems(3) ConfirmMessage_primary [OF Cons.prems(3,4), of os k P]] by simp
  obtain i where "i < length (net_secondaries N)" "(primary_addr os P, confirm_packet os k) \<in> set (sent (net_secondaries N ! i))"
    using Cons.prems(5) ka by auto
  then have "net_step os (N\<lparr>net_primary := P\<rparr>) (N\<lparr>net_primary := P, net_primary := ?Q\<rparr>)"
    by (intro answer_arrives [of os os i "N\<lparr>net_primary := P\<rparr>"]) (use h in \<open>auto simp: same_addresses_def\<close>)
  then have r: "reachable init (net_step os) (N\<lparr>net_primary := ?Q\<rparr>)"
    using reach_step [OF Cons.prems(1)] by simp
  have rest: "res_fold (\<lambda>(k, a). MessageHandler os (confirm_packet os k) a) kas ?Q = Inr P'"
    using Cons.prems(2) ka h by simp
  show ?case
    by (rule Cons.IH [OF r rest inv]) (use Cons.prems(5) ka in \<open>simp_all add: primary_addr_def\<close>)
qed

lemma net_inv_from: "reachable (\<lambda>x. x = N) (net_step os) N' \<Longrightarrow> net_inv os N \<Longrightarrow> net_inv os N'"
  by (induction rule: reachable.induct) (auto intro: net_step_inv)

lemma copies_confirmed:
  assumes "net_inv os N" and "\<And>j. j < 3 \<Longrightarrow> (secondary_addrs os (net_primary N) ! j, c j) \<in> set (sent (net_primary N))"
    and "\<And>j. j < 3 \<Longrightarrow> ptype (c j) = PACKET_CONNECT_CMD \<and> packet_text (c j) = Inr u"
    and "\<forall>S \<in> set (net_secondaries N). \<forall>a p. delivers os (srv_socket S) a p" and "k \<le> 3"
  shows "\<exists>Ss. reachable (\<lambda>x. x = N) (net_step os) (N\<lparr>net_secondaries := Ss\<rparr>) \<and> length Ss = 3 \<and>
    (\<forall>j < k. (primary_addr os (net_primary N), confirm_packet os (seqn (c j))) \<in> set (sent (Ss ! j))) \<and>
    (\<forall>j < 3. k \<le> j \<longrightarrow> Ss ! j = net_secondaries N ! j)"
  using assms(5)
proof (induction k)
  case 0
  have "reachable (\<lambda>x. x = N) (net_step os) (N\<lparr>net_secondaries := net_secondaries N\<rparr>)" by (rule reach_init) simp
  moreover have "length (net_secondaries N) = 3" using assms(1) by (simp add: net_inv_def hosts_inv_def)
  ultimately show ?case by (intro exI [of _ "net_secondaries N"]) simp
next
  case (Suc k)
  then obtain Ss where r: "reachable (\<lambda>x. x = N) (net_step os) (N\<lparr>net_secondaries := Ss\<rparr>)" and l: "length Ss = 3"
    and sofar: "\<forall>j < k. (primary_addr os (net_primary N), confirm_packet os (seqn (c j))) \<in> set (sent (Ss ! j))"
    and rest: "\<forall>j < 3. k \<le> j \<longrightarrow> Ss ! j = net_secondaries N ! j" by auto
  let ?N = "N\<lparr>net_secondaries := Ss\<rparr>"
  have k: "k < 3" using Suc.prems by simp
  have inv: "hosts_inv os ?N" using net_inv_from [OF r assms(1)] by (simp add: net_inv_def)
  have "length (net_secondaries N) = 3" using assms(1) by (simp add: net_inv_def hosts_inv_def)
  then have del: "\<forall>a p. delivers os (srv_socket (net_secondaries ?N ! k)) a p" using assms(4) rest k by simp
  obtain S where S: "net_step os ?N (?N\<lparr>net_secondaries := (net_secondaries ?N)[k := S]\<rparr>)"
    "(primary_addr os (net_primary ?N), confirm_packet os (seqn (c k))) \<in> set (sent S)"
    using copy_confirmed [OF inv k _ _ _ del, of "c k" u] assms(2,3) k by auto
  have "reachable (\<lambda>x. x = N) (net_step os) (N\<lparr>net_secondaries := Ss[k := S]\<rparr>)"
    using reach_step [OF r S(1)] by simp
  moreover have "(primary_addr os (net_primary N), confirm_packet os (seqn (c j))) \<in> set (sent (Ss[k := S] ! j))" if "j < Suc k" for j
    using that sofar S(2) l k by (cases "j = k") auto
  ultimately show ?case using l rest by (intro exI [of _ "Ss[k := S]"]) auto
qed

text \<open>A request that the primary handles: its copies and its entry.\<close>

lemma request_copies:
  assumes "net_inv os N" and "ptype m = PACKET_CONNECT_CMD" and "packet_text m = Inr u"
    and "unat (lastSeqn (net_primary N)) + 3 < 2 ^ 64" and "\<forall>a p. delivers os (srv_socket (net_primary N)) a p"
  shows "\<exists>P b. net_step os N (N\<lparr>net_primary := P\<rparr>) \<and> srv_socket P = srv_socket (net_primary N) \<and>
    confirmationBuffer (replicaManager P) = Some (b @ [new_entry (lastSeqn (net_primary N)) m a]) \<and>
    (\<forall>j < 3. (secondary_addrs os P ! j, m\<lparr>seqn := lastSeqn (net_primary N) + of_nat j\<rparr>) \<in> set (sent P))"
proof -
  let ?P = "net_primary N" and ?n = "lastSeqn (net_primary N)"
  have ok: "server_ok ?P" and prim: "IsPrimary (replicaManager ?P)" and l3: "length (GetSecondaryReplicas (replicaManager ?P)) = 3"
    using assms(1) by (auto simp: net_inv_def hosts_inv_def secondary_addrs_def)
  obtain b where b: "confirmationBuffer (replicaManager ?P) = Some b" using assms(1) by (auto simp: net_inv_def)
  have "packet_ok m" using assms(2,3) by (auto simp: packet_ok_def packet_text_def string_of_array_def split: if_splits)
  then obtain P where h: "MessageHandler os m a ?P = Inr P"
    using MessageHandler_outcome [of ?P os m a] ok by (metis server_ok_def)
  obtain w t where t: "packet_text m = Inr w" "sent t = sent ?P" "lastSeqn t = lastSeqn ?P"
    "replicaManager t = replicaManager ?P" "srv_socket t = srv_socket ?P" "replicate_state os m a t = Inr P"
    by (rule connect_handled [OF ok assms(2) h]) blast
  let ?out = "map (\<lambda>(i, p). (GetSocketAddress p, m\<lparr>seqn := ?n + of_nat i\<rparr>)) (enumerate 0 (GetSecondaryReplicas (replicaManager ?P)))"
  have P: "P = t\<lparr>lastSeqn := ?n + 3, sent := sent ?P @ datagrams os (srv_socket ?P) ?out,
      replicaManager := (replicaManager ?P)\<lparr>confirmationBuffer := Some (b @ [new_entry ?n m a])\<rparr>\<rparr>"
    using BroadcastToSecondaries_eq [OF assms(2), of "replicaManager ?P" b os a t] b t(2-6) prim
    by (simp add: replicate_state_def Push3_def new_entry_def)
  have dg: "datagrams os (srv_socket ?P) xs = map (\<lambda>(h, p). (recipient_of os h, p)) xs" for xs
    using assms(5) by (simp add: datagrams_def split_def)
  have "(secondary_addrs os P ! j, m\<lparr>seqn := ?n + of_nat j\<rparr>) \<in> set (sent P)" if j: "j < 3" for j
  proof -
    have "(j, GetSecondaryReplicas (replicaManager ?P) ! j) \<in> set (enumerate 0 (GetSecondaryReplicas (replicaManager ?P)))"
      using j l3 by (simp add: in_set_enumerate_eq)
    moreover have "secondary_addrs os P = secondary_addrs os ?P" by (rule secondary_addrs_same) (simp add: P same_host_def)
    ultimately show ?thesis using j l3 by (force simp: P dg secondary_addrs_def)
  qed
  moreover have "net_step os N (N\<lparr>net_primary := P\<rparr>)"
    by (rule request [OF _ _ h]) (use assms(2,4) P in \<open>simp_all add: same_addresses_def word_le_nat_alt unat_word_ariths\<close>)
  ultimately show ?thesis using P t(5) by (intro exI [of _ P] exI [of _ b]) simp
qed

lemma datagrams_member:
  "(a, p) \<in> set xs \<Longrightarrow> delivers os sock a p \<Longrightarrow> (recipient_of os a, p) \<in> set (datagrams os sock xs)"
  by (force simp: datagrams_def)

text \<open>Completing a connection: the request, its copies, their confirmations.\<close>

lemma completes:
  assumes inv: "net_inv os N" and "ptype m = PACKET_CONNECT_CMD" and "packet_text m = Inr u"
    and "unat (lastSeqn (net_primary N)) + 3 < 2 ^ 64"
    and "\<forall>S \<in> set (net_primary N # net_secondaries N). \<forall>a p. delivers os (srv_socket S) a p"
  shows "\<exists>N'. reachable (\<lambda>x. x = N) (net_step os) N' \<and>
    (recipient_of os a, MakeAcceptConnCommand (os_time os) (seqn m)) \<in> set (sent (net_primary N'))"
proof -
  let ?n = "lastSeqn (net_primary N)"
  obtain P b where P: "net_step os N (N\<lparr>net_primary := P\<rparr>)" "srv_socket P = srv_socket (net_primary N)"
    "confirmationBuffer (replicaManager P) = Some (b @ [new_entry ?n m a])"
    "\<And>j. j < 3 \<Longrightarrow> (secondary_addrs os P ! j, m\<lparr>seqn := ?n + of_nat j\<rparr>) \<in> set (sent P)"
    using request_copies [OF inv assms(2-4), of a] assms(5) by auto
  let ?N1 = "N\<lparr>net_primary := P\<rparr>" and ?c = "\<lambda>j. m\<lparr>seqn := ?n + of_nat j\<rparr>"
  have inv1: "net_inv os ?N1" by (rule net_step_inv [OF inv P(1)])
  obtain Ss where Ss: "reachable (\<lambda>x. x = ?N1) (net_step os) (?N1\<lparr>net_secondaries := Ss\<rparr>)" "length Ss = 3"
    "\<forall>j < 3. (primary_addr os P, confirm_packet os (seqn (?c j))) \<in> set (sent (Ss ! j))"
    using copies_confirmed [OF inv1, of ?c u 3] P(4) assms(2,3,5) by (auto simp: packet_text_def)
  let ?N2 = "?N1\<lparr>net_secondaries := Ss\<rparr>" and ?kas = "map (\<lambda>k. (k, a)) [?n, ?n + 1, ?n + 2]"
  have ri: "replica_inv (replicaManager P)" using inv1 by (simp add: net_inv_def hosts_inv_def server_ok_def server_inv_def)
  obtain P' where P': "res_fold (\<lambda>(k, a). MessageHandler os (confirm_packet os k) a) ?kas P = Inr P'"
    "sent P' = sent P @ datagrams os (srv_socket P) (accepts os [?n, ?n + 1, ?n + 2] (b @ [new_entry ?n m a]))"
    using primary_confirms [OF ri P(3), of os ?kas] by auto
  have "reachable (\<lambda>x. x = N) (net_step os) N" by (rule reach_init) simp
  then have "reachable (\<lambda>x. x = N) (net_step os) ?N1" by (rule reach_step) (rule P(1))
  with Ss(1) have "reachable (\<lambda>x. x = N) (net_step os) ?N2" by (rule reachable_trans)
  moreover have "?N2\<lparr>net_primary := P\<rparr> = ?N2" by (cases N) simp
  ultimately have r: "reachable (\<lambda>x. x = N) (net_step os) (?N2\<lparr>net_primary := P\<rparr>)" by metis
  have from_sec: "\<forall>(k, a') \<in> set ?kas. \<exists>i < length (net_secondaries ?N2).
      (primary_addr os P, confirm_packet os k) \<in> set (sent (net_secondaries ?N2 ! i))"
    using Ss(2,3) by (auto simp: less_3 all_conj_distrib intro: exI [of _ 0] exI [of _ 1] exI [of _ 2])
  have fin: "reachable (\<lambda>x. x = N) (net_step os) (?N2\<lparr>net_primary := P'\<rparr>)"
    by (rule answers_delivered [OF r P'(1) ri P(3) from_sec])
  have "ContainerConfirmed (fold mark [?n, ?n + 1, ?n + 2] (new_entry ?n m a))"
    unfolding awaited_complete by (simp add: new_entry_def fresh_items_def BaseMessage2_def)
  then have "accept_of os (new_entry ?n m a) \<in> set (accepts os [?n, ?n + 1, ?n + 2] (b @ [new_entry ?n m a]))"
    unfolding set_accepts [OF list.distinct(2)] by (intro image_eqI [OF refl] CollectI conjI) simp_all
  moreover have "accept_of os (new_entry ?n m a) = (a, MakeAcceptConnCommand (os_time os) (seqn m))"
    by (simp add: accept_of_def new_entry_def)
  ultimately have "(recipient_of os a, MakeAcceptConnCommand (os_time os) (seqn m)) \<in> set (sent P')"
    unfolding P'(2) set_append using P(2) assms(5) by (intro UnI2 datagrams_member) simp_all
  then show ?thesis using fin by (intro exI [of _ "?N2\<lparr>net_primary := P'\<rparr>"]) simp
qed

section \<open>A cluster for concrete runs\<close>

definition example_primary_peer :: Peer where
  "example_primary_peer = \<lparr>peer_address = ''127.0.0.1'', peer_port = 4000, peer_primary = True\<rparr>"

definition example_peer :: "int \<Rightarrow> Peer" where
  "example_peer p = \<lparr>peer_address = ''127.0.0.1'', peer_port = p, peer_primary = False\<rparr>"

definition example_replica :: "int \<Rightarrow> Peer list \<Rightarrow> bool \<Rightarrow> Server" where
  "example_replica p ps pr = projr (the (Server_new 3 None True ''127.0.0.1'' p (join_with CHR '','' (map peer_text ps)) pr))"

definition example_network :: Network where
  "example_network =
     \<lparr>net_primary = example_replica 4000 (map example_peer [4001, 4002, 4003]) True,
      net_secondaries = map (\<lambda>p. example_replica p [example_primary_peer] False) [4001, 4002, 4003]\<rparr>"

lemma example_replica_new:
  assumes "\<forall>p \<in> set ps. peer_ok p"
  shows "Server_new 3 None True ''127.0.0.1'' p (join_with CHR '','' (map peer_text ps)) pr = Some (Inr (example_replica p ps pr))"
    "replicaManager (example_replica p ps pr) =
      \<lparr>thisPeer = \<lparr>peer_address = ''127.0.0.1'', peer_port = p, peer_primary = pr\<rparr>, peers = ps,
       confirmationBuffer = (if pr then Some [] else None)\<rparr>"
    "socketDesc (srv_socket (example_replica p ps pr)) = 3" "lastSeqn (example_replica p ps pr) = 0"
  using ParsePeers_texts [OF assms]
  by (simp_all add: example_replica_def Server_new_fresh ReplicaManager_new_def Bind_def Socket_new_def)

lemma example_peers_ok:
  "\<forall>p \<in> set (map example_peer [4001, 4002, 4003]). peer_ok p" "\<forall>p \<in> set [example_primary_peer]. peer_ok p"
  by (auto simp: example_peer_def example_primary_peer_def peer_ok_def)

lemma example_replica_init:
  assumes "\<forall>p \<in> set ps. peer_ok p" and "pr \<or> (\<exists>p \<in> set ps. peer_primary p)"
  shows "server_init (example_replica p ps pr)"
  unfolding server_init_def
proof
  show "\<exists>d w ba bp pl pr'. Server_new d None w ba bp pl pr' = Some (Inr (example_replica p ps pr))"
    using example_replica_new(1) [OF assms(1)] by blast
  show "has_primary (replicaManager (example_replica p ps pr))"
    using assms(2) by (auto simp: has_primary_def IsPrimary_def example_replica_new(2) [OF assms(1)] list_ex_iff)
qed

lemma example_network_init: "net_init example_os example_network"
proof -
  note r = example_replica_new(2) [OF example_peers_ok(1)] example_replica_new(2) [OF example_peers_ok(2)]
  have "server_init (example_replica 4000 (map example_peer [4001, 4002, 4003]) True)"
    by (rule example_replica_init [OF example_peers_ok(1)]) simp
  moreover have "server_init (example_replica p [example_primary_peer] False)" for p
    by (rule example_replica_init [OF example_peers_ok(2)]) (simp add: example_primary_peer_def)
  ultimately show ?thesis
    using r
    by (simp add: net_init_def example_network_def secondary_addrs_def primary_addr_def GetSecondaryReplicas_def IsPrimary_def
        example_peer_def example_primary_peer_def recipient_of_def htons_def GetSocketAddress_def)
qed

lemma example_network_sockets:
  "\<forall>S \<in> set (net_primary example_network # net_secondaries example_network). \<forall>a p. delivers example_os (srv_socket S) a p"
  "lastSeqn (net_primary example_network) = 0"
proof -
  note ok = example_peers_ok
  show "\<forall>S \<in> set (net_primary example_network # net_secondaries example_network). \<forall>a p. delivers example_os (srv_socket S) a p"
    using example_replica_new(3) [OF ok(1)] example_replica_new(3) [OF ok(2)]
    by (auto simp: example_network_def delivers_def example_os_def)
  show "lastSeqn (net_primary example_network) = 0"
    using example_replica_new(4) [OF ok(1)] by (simp add: example_network_def)
qed

lemma example_network_reached: "reachable (net_init example_os) (net_step example_os) example_network"
  by (rule reach_init) (rule example_network_init)

section \<open>Properties\<close>

text \<open>
  C2.  Agreement, for packets that are handled one at a time: a primary and three secondaries start
  without profile files and know each other; datagrams between them are lost, repeated and
  reordered at will; clients send the primary any packets except confirmations, and nothing to the
  secondaries; the counter of the primary does not wrap around.  Whenever the primary has then sent
  an ACCEPT, it answers a request that the primary holds, at the address and with the number of
  that request, and the user that the request names has a profile on the primary and on every
  secondary.  The conditions matter: two handlers that interleave can wait for the same numbers, and
  the program takes confirmations from anybody.  The functions without a return statement whose
  value is not used are taken to return.
\<close>

theorem accepted_everywhere:
  assumes "reachable (net_init os) (net_step os) N" and "(h, p) \<in> set (sent (net_primary N))"
    and "ptype p = PACKET_ACCEPT_CONN_CMD"
  shows "\<exists>c m a u. c \<in> set (the (confirmationBuffer (replicaManager (net_primary N)))) \<and>
    (\<forall>it \<in> set (content c). bm_packet (item it) = Some m) \<and> originalHost c = Some a \<and> packet_text m = Inr u \<and>
    h = recipient_of os a \<and> seqn p = seqn m + 1 \<and>
    knows u (net_primary N) \<and> (\<forall>S \<in> set (net_secondaries N). knows u S)"
proof -
  obtain b where b: "hosts_inv os N" "buffer_inv os N b" "confirmationBuffer (replicaManager (net_primary N)) = Some b"
    using net.reachable_inv [OF assms(1)] by (auto simp: net_inv_def)
  have "from_primary os (secondary_addrs os (net_primary N)) b (h, p)" using b(2) assms(2) by (auto simp: buffer_inv_def)
  then obtain c where c: "c \<in> set b" "ContainerConfirmed c" "h = recipient_of os (the (originalHost c))" "seqn p = originalSeqn c + 1"
    using assms(3) by (auto simp: from_primary_def)
  have "pending_ok c"
    using b(1,3) c(1) by (auto simp: hosts_inv_def server_ok_def server_inv_def replica_inv_def list_all_iff)
  then obtain m a where m: "\<forall>it \<in> set (content c). bm_packet (item it) = Some m" "originalHost c = Some a" "length (content c) = 3"
    by (auto simp: pending_ok_def)
  have n: "numbered c" and e: "entry_inv (net_primary N) (net_secondaries N) c"
    using b(2) c(1) by (auto simp: buffer_inv_def spaced_def)
  have "packet_text m = Inr (user_of c)" "originalSeqn c = seqn m" using n m(1,3) by (auto simp: numbered_def)
  moreover have "knows (user_of c) S" if S: "S \<in> set (net_secondaries N)" for S
  proof -
    obtain j where j: "j < length (net_secondaries N)" "S = net_secondaries N ! j" using S by (auto simp: in_set_conv_nth)
    moreover have "length (net_secondaries N) = 3" using b(1) by (simp add: hosts_inv_def)
    ultimately show ?thesis using e c(2) m(3) by (simp add: entry_inv_def ContainerConfirmed_iff)
  qed
  ultimately show ?thesis using c m e b(3) by (intro exI [of _ c]) (auto simp: entry_inv_def)
qed

theorem accepted_everywhere_witness:
  "\<exists>N c m a u. reachable (net_init example_os) (net_step example_os) N \<and>
    c \<in> set (the (confirmationBuffer (replicaManager (net_primary N)))) \<and>
    (\<forall>it \<in> set (content c). bm_packet (item it) = Some m) \<and> originalHost c = Some a \<and> packet_text m = Inr u \<and>
    knows u (net_primary N) \<and> (\<forall>S \<in> set (net_secondaries N). knows u S)"
proof -
  let ?p = "MakeAcceptConnCommand (os_time example_os) (seqn example_connect)"
  obtain N where N: "reachable (\<lambda>x. x = example_network) (net_step example_os) N"
    "(recipient_of example_os example_client, ?p) \<in> set (sent (net_primary N))"
    using completes [OF net.reachable_inv [OF example_network_reached] example_connect_facts(1,2) _ example_network_sockets(1)]
    by (force simp: example_network_sockets(2))
  have r: "reachable (net_init example_os) (net_step example_os) N"
    by (rule reachable_trans [OF N(1) example_network_reached])
  show ?thesis
    using accepted_everywhere [OF r N(2)] r by (fastforce simp: MakeAcceptConnCommand_def packet_init_def)
qed

text \<open>
  C3.  A connection can always be completed: a primary and three secondaries start without profile
  files, handle one packet at a time, and datagrams between them are lost, repeated and reordered;
  clients send the primary no confirmations and the secondaries nothing.  From every state that is
  reached, when the sockets work and the counter is not about to wrap around, there is a run, of the
  request, its three copies and their three confirmations, after which the ACCEPT for the request
  has left.
\<close>

theorem connection_completes:
  assumes "reachable (net_init os) (net_step os) N" and "ptype m = PACKET_CONNECT_CMD" and "packet_text m = Inr u"
    and "unat (lastSeqn (net_primary N)) + 3 < 2 ^ 64"
    and "\<forall>S \<in> set (net_primary N # net_secondaries N). \<forall>a p. delivers os (srv_socket S) a p"
  shows "\<exists>N'. reachable (\<lambda>x. x = N) (net_step os) N' \<and>
    (recipient_of os a, MakeAcceptConnCommand (os_time os) (seqn m)) \<in> set (sent (net_primary N'))"
  by (rule completes [OF net.reachable_inv [OF assms(1)] assms(2-5)])

theorem connection_completes_witness:
  "\<exists>N'. reachable (\<lambda>x. x = example_network) (net_step example_os) N' \<and>
    (recipient_of example_os example_client, MakeAcceptConnCommand (os_time example_os) (seqn example_connect))
      \<in> set (sent (net_primary N'))"
  by (rule connection_completes [OF example_network_reached example_connect_facts(1,2) _ example_network_sockets(1)])
    (simp add: example_network_sockets(2))

end
