(* ===== verification/Client.thy ===== *)
theory Client
  imports Server_Safety
begin

text \<open>
  The client (\<open>source/client/client.hpp\<close>, \<open>client.cpp\<close>, \<open>utils.hpp\<close>).  The
  state holds the members of the class, the datagrams that left and the calls of the registered
  message handler.  Members that the constructors leave uninitialised are \<open>None\<close>.  One round of
  the listening loop takes what \<open>recvfrom\<close> wrote over the packet variable; one round of the
  reordering loop sorts the packets that arrived and hands their texts to the handler.
  \<open>std::sort\<close> is a parameter with its contract, the locale \<open>std_sort\<close>: the order of equal
  sequence numbers is not specified.
\<close>

section \<open>Trimming\<close>

definition ltrim :: "string \<Rightarrow> string" where
  "ltrim s = dropWhile isspace s"

definition rtrim :: "string \<Rightarrow> string" where
  "rtrim s = rev (dropWhile isspace (rev s))"

definition trim :: "string \<Rightarrow> string" where
  "trim s = rtrim (ltrim s)"

definition ltrim_copy :: "string \<Rightarrow> string" where
  "ltrim_copy s = ltrim s"

definition rtrim_copy :: "string \<Rightarrow> string" where
  "rtrim_copy s = rtrim s"

definition trim_copy :: "string \<Rightarrow> string" where
  "trim_copy s = trim s"

section \<open>Data\<close>

datatype MessageType = Notification | Info | Error

record Client =
  profileHandle :: string
  serverAddress :: string
  serverPort :: "int option"
  cl_socketDescr :: "int option"
  cl_closed :: bool
  lastSentSeqn :: u64
  connected :: bool
  cl_isListening :: bool
  PacketList :: "Packet list"
  messageHandler :: bool
  handled :: "(string \<times> MessageType) list"
  cl_sent :: "(sockaddr_in \<times> Packet) list"
  threads :: bool

definition Client_new :: "string \<Rightarrow> string \<Rightarrow> int \<Rightarrow> Client" where
  "Client_new profile sAddress sPort =
     \<lparr>profileHandle = trim_copy profile, serverAddress = sAddress, serverPort = Some sPort,
      cl_socketDescr = None, cl_closed = False, lastSentSeqn = 0, connected = False, cl_isListening = True,
      PacketList = [], messageHandler = False, handled = [], cl_sent = [], threads = False\<rparr>"

definition Client_default :: Client where
  "Client_default =
     \<lparr>profileHandle = [], serverAddress = [], serverPort = None,
      cl_socketDescr = None, cl_closed = False, lastSentSeqn = 0, connected = False, cl_isListening = True,
      PacketList = [], messageHandler = False, handled = [], cl_sent = [], threads = False\<rparr>"

definition SetProfileHandle :: "string \<Rightarrow> Client \<Rightarrow> Client" where
  "SetProfileHandle h c = c\<lparr>profileHandle := h\<rparr>"

definition SetServerAddress :: "string \<Rightarrow> Client \<Rightarrow> Client" where
  "SetServerAddress a c = c\<lparr>serverAddress := a\<rparr>"

definition SetServerPort :: "int \<Rightarrow> Client \<Rightarrow> Client" where
  "SetServerPort p c = c\<lparr>serverPort := Some p\<rparr>"

definition SetMessageHandlerFunc :: "Client \<Rightarrow> Client" where
  "SetMessageHandlerFunc c = c\<lparr>messageHandler := True\<rparr>"

definition IsConnected :: "Client \<Rightarrow> bool" where
  "IsConnected c = connected c"

definition GetHostStr :: "Client \<Rightarrow> string res" where
  "GetHostStr c =
     (case serverPort c of
        None \<Rightarrow> Inl UninitialisedRead
      | Some p \<Rightarrow> Inr (serverAddress c @ '':'' @ show_int p))"

section \<open>Operations\<close>

text \<open>\<open>sendto\<close> on a descriptor that is not open fails.\<close>

definition SendMessageToServer :: "Os \<Rightarrow> Packet \<Rightarrow> Client \<Rightarrow> (int \<times> Client) res" where
  "SendMessageToServer os message c =
     (case serverPort c of
        None \<Rightarrow> Inl UninitialisedRead
      | Some p \<Rightarrow>
          (case cl_socketDescr c of
             None \<Rightarrow> Inl UninitialisedRead
           | Some d \<Rightarrow>
               (let server_addr = recipient_of os \<lparr>address = serverAddress c, port = p\<rparr>;
                    r = (if d < 0 \<or> cl_closed c then - 1 else os_sendto os server_addr message)
                in Inr (r, if r < 0 then c else c\<lparr>cl_sent := cl_sent c @ [(server_addr, message)]\<rparr>))))"

text \<open>\<open>++lastSentSeqn\<close>, then the constructor of the packet, then the call.\<close>

definition send_next :: "Os \<Rightarrow> (u64 \<Rightarrow> Packet res) \<Rightarrow> Client \<Rightarrow> Client res" where
  "send_next os mk c =
     (let c1 = c\<lparr>lastSentSeqn := lastSentSeqn c + 1\<rparr> in
      res_bind (mk (lastSentSeqn c1)) (\<lambda>p.
        res_bind (SendMessageToServer os p c1) (\<lambda>(r, c2). Inr c2)))"

definition Shutdown :: "Os \<Rightarrow> Client \<Rightarrow> Client res" where
  "Shutdown os c =
     res_bind (send_next os (\<lambda>n. MakeDisconnectCommand (os_time os) n (profileHandle c)) c)
       (\<lambda>c1. Inr (c1\<lparr>cl_closed := True, cl_isListening := False\<rparr>))"

text \<open>\<open>Connect\<close>; \<open>d\<close> is what \<open>socket()\<close> returned.\<close>

definition Connect :: "Os \<Rightarrow> int \<Rightarrow> Client \<Rightarrow> (int \<times> Client) res" where
  "Connect os d c =
     (let c1 = c\<lparr>cl_socketDescr := Some d\<rparr> in
      if d < 0 then Inr (0, c1)
      else res_bind (send_next os (\<lambda>n. MakeConnectCommand (os_time os) n (profileHandle c1)) c1)
             (\<lambda>c2. Inr (0, c2\<lparr>threads := True\<rparr>)))"

definition Connect3 :: "Os \<Rightarrow> int \<Rightarrow> string \<Rightarrow> string \<Rightarrow> int \<Rightarrow> Client \<Rightarrow> (int \<times> Client) res" where
  "Connect3 os d h a p c =
     res_bind (Connect os d (c\<lparr>profileHandle := h, serverAddress := a, serverPort := Some p\<rparr>))
       (\<lambda>(_, c'). Inr (0, c'))"

definition FollowUser :: "Os \<Rightarrow> string \<Rightarrow> Client \<Rightarrow> (int \<times> Client) res" where
  "FollowUser os profile c =
     res_bind (send_next os (\<lambda>n. MakeFollowCommand (os_time os) n profile) c) (\<lambda>c1. Inr (0, c1))"

definition Post :: "Os \<Rightarrow> string \<Rightarrow> Client \<Rightarrow> (int \<times> Client) res" where
  "Post os message c =
     (if length message \<le> 128
      then res_bind (send_next os (\<lambda>n. MakeSendCommand (os_time os) n message) c) (\<lambda>c1. Inr (0, c1))
      else Inr (1, c))"

text \<open>\<open>GetInfo\<close> has no \<open>return\<close>: the result is \<open>None\<close>.\<close>

definition GetInfo :: "Os \<Rightarrow> Client \<Rightarrow> (int option \<times> Client) res" where
  "GetInfo os c =
     res_bind (send_next os (\<lambda>n. Inr (MakeRequestUserInfo (os_time os) n)) c) (\<lambda>c1. Inr (None, c1))"

section \<open>The two loops\<close>

definition call_handler :: "Packet \<Rightarrow> MessageType \<Rightarrow> Client \<Rightarrow> Client res" where
  "call_handler p ty c =
     (if messageHandler c
      then res_bind (packet_text p) (\<lambda>t. Inr (c\<lparr>handled := handled c @ [(t, ty)]\<rparr>))
      else Inr c)"

definition dispatch :: "Os \<Rightarrow> Packet \<Rightarrow> Client \<Rightarrow> Client res" where
  "dispatch os p c =
     (if ptype p = PACKET_ACCEPT_CONN_CMD then Inr (c\<lparr>connected := True\<rparr>)
      else if ptype p = PACKET_REJECT_CONN_CMD then Shutdown os c
      else if ptype p = PACKET_NOTIFICATION then Inr (c\<lparr>PacketList := PacketList c @ [p]\<rparr>)
      else if ptype p = PACKET_ERROR then call_handler p Error c
      else if ptype p = PACKET_INFO then call_handler p Info c
      else Shutdown os c)"

text \<open>A round of \<open>Listen\<close>: the bytes of the packet variable and what arrived.\<close>

definition Client_Listen_round ::
  "Os \<Rightarrow> u8 list option \<Rightarrow> u8 list \<times> Client \<Rightarrow> (u8 list \<times> Client) res" where
  "Client_Listen_round os incoming bc =
     (let (p, c) = bc in
      if cl_isListening c then
        (case incoming of
           None \<Rightarrow> Inr (p, c)
         | Some bytes \<Rightarrow>
             (let n = min (length bytes) sizeof_Packet;
                  p' = take n bytes @ drop n p
              in if n > 0 then res_bind (dispatch os (packet_of_bytes p') c) (\<lambda>c'. Inr (p', c'))
                 else Inr (p', c)))
      else Inr (p, c))"

text \<open>
  A round of \<open>Reorder\<close>: \<open>std::sort\<close>, then the texts in order, then the list is cleared.  The
  text of a packet is read whether or not a handler is set.
\<close>

definition deliver :: "Packet \<Rightarrow> Client \<Rightarrow> Client res" where
  "deliver p c =
     res_bind (packet_text p) (\<lambda>message.
       Inr (if messageHandler c then c\<lparr>handled := handled c @ [(message, Notification)]\<rparr> else c))"

definition Reorder_round :: "(Packet list \<Rightarrow> Packet list) \<Rightarrow> Client \<Rightarrow> Client res" where
  "Reorder_round sorter c =
     (let c1 = c\<lparr>PacketList := sorter (PacketList c)\<rparr> in
      res_bind (res_fold deliver (PacketList c1) c1) (\<lambda>c2. Inr (c2\<lparr>PacketList := []\<rparr>)))"

text \<open>
  The loop of \<open>Reorder\<close> beside \<open>Listen\<close>: a round treats the notifications that have been
  dispatched since the previous one, here one list of packets per round.  The pause between two rounds
  is \<open>sleep(0.2)\<close>, whose argument is an unsigned number of seconds: there is none.
\<close>

definition Reorder_rounds ::
  "Os \<Rightarrow> (Packet list \<Rightarrow> Packet list) \<Rightarrow> Packet list list \<Rightarrow> Client \<Rightarrow> Client res" where
  "Reorder_rounds os sorter arrivals c =
     res_fold (\<lambda>ps c. res_bind (res_fold (dispatch os) ps c) (Reorder_round sorter)) arrivals c"

section \<open>Trimming\<close>

lemma trim_split:
  obtains b e where "s = b @ trim s @ e" "\<forall>c \<in> set b. isspace c" "\<forall>c \<in> set e. isspace c"
proof -
  have "s = takeWhile isspace s @ ltrim s" by (simp add: ltrim_def)
  moreover have "ltrim s = trim s @ rev (takeWhile isspace (rev (ltrim s)))"
    unfolding trim_def rtrim_def by (metis rev_append rev_rev_ident takeWhile_dropWhile_id)
  ultimately have "s = takeWhile isspace s @ trim s @ rev (takeWhile isspace (rev (ltrim s)))" by simp
  then show ?thesis by (rule that) (auto dest: set_takeWhileD)
qed

lemma trim_ends: "trim s \<noteq> [] \<Longrightarrow> \<not> isspace (hd (trim s)) \<and> \<not> isspace (last (trim s))"
proof -
  assume ne: "trim s \<noteq> []"
  let ?l = "ltrim s"
  have r: "rev (trim s) = dropWhile isspace (rev ?l)" by (simp add: trim_def rtrim_def)
  have "dropWhile isspace (rev ?l) \<noteq> []" using ne r by (metis rev_is_Nil_conv)
  then have "\<not> isspace (hd (rev (trim s)))" unfolding r by (rule hd_dropWhile)
  then have last: "\<not> isspace (last (trim s))" using ne by (simp add: hd_rev)
  have "?l = trim s @ rev (takeWhile isspace (rev ?l))"
    unfolding trim_def rtrim_def by (metis rev_append rev_rev_ident takeWhile_dropWhile_id)
  then have "hd ?l = hd (trim s)" "?l \<noteq> []" using ne by (metis hd_append2, auto)
  then have "\<not> isspace (hd (trim s))" using hd_dropWhile [of isspace s] by (simp add: ltrim_def)
  with last show ?thesis by blast
qed

section \<open>Sending\<close>

definition server_sockaddr :: "Os \<Rightarrow> Client \<Rightarrow> sockaddr_in" where
  "server_sockaddr os c = recipient_of os \<lparr>address = serverAddress c, port = the (serverPort c)\<rparr>"

text \<open>A client with an open socket on a network that takes its packets.\<close>

definition online :: "Os \<Rightarrow> Client \<Rightarrow> bool" where
  "online os c \<longleftrightarrow> serverPort c \<noteq> None \<and> (\<exists>d. cl_socketDescr c = Some d \<and> 0 \<le> d) \<and> \<not> cl_closed c \<and>
     (\<forall>p. 0 \<le> os_sendto os (server_sockaddr os c) p)"

definition emitted :: "Os \<Rightarrow> Packet list \<Rightarrow> Client \<Rightarrow> Client" where
  "emitted os ps c = c\<lparr>lastSentSeqn := lastSentSeqn c + of_nat (length ps),
     cl_sent := cl_sent c @ map (\<lambda>p. (server_sockaddr os c, p)) ps\<rparr>"

lemma emitted_simps [simp]:
  "lastSentSeqn (emitted os ps c) = lastSentSeqn c + of_nat (length ps)" "profileHandle (emitted os ps c) = profileHandle c"
  "server_sockaddr os (emitted os' ps c) = server_sockaddr os c" "online os (emitted os' ps c) = online os c"
  "emitted os qs (emitted os ps c) = emitted os (ps @ qs) c" "emitted os [] c = c"
  by (simp_all add: emitted_def server_sockaddr_def online_def add.assoc)

lemma send_next_online:
  assumes "online os c" and "mk (lastSentSeqn c + 1) = Inr p"
  shows "send_next os mk c = Inr (emitted os [p] c)"
proof -
  obtain pt d where c: "serverPort c = Some pt" "cl_socketDescr c = Some d" "0 \<le> d" "\<not> cl_closed c"
    using assms(1) by (auto simp: online_def)
  moreover have "0 \<le> os_sendto os (recipient_of os \<lparr>address = serverAddress c, port = pt\<rparr>) p"
    using assms(1) c(1) by (simp add: online_def server_sockaddr_def)
  ultimately show ?thesis
    using assms(2) by (simp add: send_next_def SendMessageToServer_def Let_def emitted_def server_sockaddr_def)
qed

text \<open>The packets of the client's commands are well formed for the server.\<close>

lemma text_command_ok:
  assumes "NUL \<notin> set t" and "length t < PACKET_MAX_PAYLOAD_LEN" and "nameable ty"
  shows "\<exists>p. strcpy_payload (packet_init now ty n k) t = Inr p \<and> packet_text p = Inr t \<and> ptype p = ty \<and>
    seqn p = n \<and> packet_wf p \<and> packet_ok p"
proof -
  obtain p where p: "strcpy_payload (packet_init now ty n k) t = Inr p" "packet_text p = Inr t" "ptype p = ty"
    "seqn p = n" "packet_wf p" using Make_init [OF assms(1,2), of now ty n k] by blast
  then have "NUL \<in> set (payload p)" by (auto simp: packet_text_def string_of_array_def split: if_splits)
  then show ?thesis using p assms(3) by (auto simp: packet_ok_def)
qed

lemma nameable_commands [simp]: "nameable PACKET_DISCONNECT_CMD" "nameable PACKET_FOLLOW_CMD" "nameable PACKET_SEND_CMD"
  by (auto simp: nameable_def TypeToStr_def)

lemma Post_online:
  assumes "online os c" and "NUL \<notin> set t" and "length t \<le> 128"
  shows "\<exists>p. Post os t c = Inr (0, emitted os [p] c) \<and> packet_text p = Inr t \<and> ptype p = PACKET_SEND_CMD \<and>
    seqn p = lastSentSeqn c + 2 \<and> packet_wf p \<and> packet_ok p"
proof -
  obtain p where p: "MakeSendCommand (os_time os) (lastSentSeqn c + 1) t = Inr p" "packet_text p = Inr t"
    "ptype p = PACKET_SEND_CMD" "seqn p = lastSentSeqn c + 1 + 1" "packet_wf p" "packet_ok p"
    using text_command_ok [OF assms(2) _ nameable_commands(3), of "os_time os" "lastSentSeqn c + 1 + 1" "length t"] assms(3)
    by (auto simp: MakeSendCommand_def)
  then show ?thesis using send_next_online [OF assms(1), of _ p] assms(3)
    by (intro exI [of _ p]) (simp add: Post_def)
qed

lemma FollowUser_online:
  assumes "online os c" and "NUL \<notin> set t" and "length t < PACKET_MAX_PAYLOAD_LEN"
  shows "\<exists>p. FollowUser os t c = Inr (0, emitted os [p] c) \<and> packet_text p = Inr t \<and> ptype p = PACKET_FOLLOW_CMD \<and>
    seqn p = lastSentSeqn c + 2 \<and> packet_wf p \<and> packet_ok p"
proof -
  obtain p where p: "MakeFollowCommand (os_time os) (lastSentSeqn c + 1) t = Inr p" "packet_text p = Inr t"
    "ptype p = PACKET_FOLLOW_CMD" "seqn p = lastSentSeqn c + 1 + 1" "packet_wf p" "packet_ok p"
    using text_command_ok [OF assms(2,3) nameable_commands(2), of "os_time os" "lastSentSeqn c + 1 + 1" "length t"]
    by (auto simp: MakeFollowCommand_def)
  then show ?thesis using send_next_online [OF assms(1), of _ p]
    by (intro exI [of _ p]) (simp add: FollowUser_def)
qed

lemma GetInfo_online:
  assumes "online os c"
  shows "\<exists>p. GetInfo os c = Inr (None, emitted os [p] c) \<and> ptype p = PACKET_REQUEST_USER_INFO \<and>
    seqn p = lastSentSeqn c + 2 \<and> packet_wf p \<and> packet_ok p"
proof -
  let ?p = "MakeRequestUserInfo (os_time os) (lastSentSeqn c + 1)"
  have "packet_ok ?p" by (simp add: packet_ok_def MakeRequestUserInfo_def packet_init_def)
  then show ?thesis
    using send_next_online [OF assms, of "\<lambda>n. Inr (MakeRequestUserInfo (os_time os) n)" ?p]
    by (intro exI [of _ ?p]) (simp add: GetInfo_def MakeRequestUserInfo_def)
qed

text \<open>The calls that a user interface makes on a connected client.\<close>

datatype client_call = CallFollow string | CallPost string | CallInfo

fun run_call :: "Os \<Rightarrow> client_call \<Rightarrow> Client \<Rightarrow> Client res" where
  "run_call os (CallFollow u) c = res_bind (FollowUser os u c) (\<lambda>(_, c'). Inr c')"
| "run_call os (CallPost t) c = res_bind (Post os t c) (\<lambda>(_, c'). Inr c')"
| "run_call os CallInfo c = res_bind (GetInfo os c) (\<lambda>(_, c'). Inr c')"

fun call_ok :: "client_call \<Rightarrow> bool" where
  "call_ok (CallFollow u) \<longleftrightarrow> NUL \<notin> set u \<and> length u < PACKET_MAX_PAYLOAD_LEN"
| "call_ok (CallPost t) \<longleftrightarrow> NUL \<notin> set t"
| "call_ok CallInfo \<longleftrightarrow> True"

fun call_sends :: "client_call \<Rightarrow> bool" where
  "call_sends (CallPost t) \<longleftrightarrow> length t \<le> 128"
| "call_sends _ \<longleftrightarrow> True"

lemma run_call_online:
  assumes "online os c" and "call_ok k"
  shows "\<exists>ps. run_call os k c = Inr (emitted os ps c) \<and> length ps = (if call_sends k then 1 else 0) \<and>
    (\<forall>p \<in> set ps. seqn p = lastSentSeqn c + 2 \<and> packet_wf p \<and> packet_ok p)"
proof (cases k)
  case (CallFollow u)
  from FollowUser_online [OF assms(1), of u] assms(2) CallFollow obtain p where
    "FollowUser os u c = Inr (0, emitted os [p] c)" "seqn p = lastSentSeqn c + 2" "packet_wf p" "packet_ok p" by auto
  then show ?thesis using CallFollow by (intro exI [of _ "[p]"]) simp
next
  case (CallPost t)
  show ?thesis
  proof (cases "length t \<le> 128")
    case True
    from Post_online [OF assms(1) _ True] assms(2) CallPost obtain p where
      "Post os t c = Inr (0, emitted os [p] c)" "seqn p = lastSentSeqn c + 2" "packet_wf p" "packet_ok p" by auto
    then show ?thesis using CallPost True by (intro exI [of _ "[p]"]) simp
  next
    case False
    then show ?thesis using CallPost by (intro exI [of _ "[]"]) (simp add: Post_def)
  qed
next
  case CallInfo
  from GetInfo_online [OF assms(1)] obtain p where
    "GetInfo os c = Inr (None, emitted os [p] c)" "seqn p = lastSentSeqn c + 2" "packet_wf p" "packet_ok p" by auto
  then show ?thesis using CallInfo by (intro exI [of _ "[p]"]) simp
qed

section \<open>Reordering\<close>

locale std_sort =
  fixes sorter :: "'a list \<Rightarrow> 'a list" and key :: "'a \<Rightarrow> 'k::linorder"
  assumes permutes: "mset (sorter xs) = mset xs"
    and ordered: "sorted (map key (sorter xs))"
begin

lemma set_sorter: "set (sorter xs) = set xs"
  using permutes [of xs] by (metis set_mset_mset)

lemma unique_order:
  assumes "distinct (map key xs)"
  shows "sorter xs = sort_key key xs"
proof (rule sorted_key_unique [of _ _ key])
  show "mset (sorter xs) = mset (sort_key key xs)" using permutes by simp
  show "distinct (map key (sorter xs))"
    using assms permutes [of xs] by (metis mset_map mset_eq_imp_distinct_iff)
qed (simp_all add: ordered)

end

interpretation stable: std_sort "sort_key seqn" seqn
  by unfold_locales auto

lemma deliver_all:
  assumes "\<forall>p \<in> set ps. \<exists>t. packet_text p = Inr t" and "messageHandler c"
  shows "res_fold deliver ps c = Inr (c\<lparr>handled := handled c @ map (\<lambda>p. (projr (packet_text p), Notification)) ps\<rparr>)"
  using assms
proof (induction ps arbitrary: c)
  case Nil
  then show ?case by simp
next
  case (Cons p ps)
  then obtain t where t: "packet_text p = Inr t" by auto
  with Cons show ?case by (simp add: deliver_def)
qed

text \<open>A client that has just connected, for concrete runs.\<close>

definition example_cl :: Client where
  "example_cl = (Client_new ''ana'' ''127.0.0.1'' 4000)\<lparr>cl_socketDescr := Some 5, messageHandler := True, lastSentSeqn := 1\<rparr>"

lemma example_cl_online: "online example_os example_cl"
  by (simp add: online_def example_cl_def Client_new_def example_os_def)

section \<open>Properties\<close>

text \<open>
  Posting: a text of at most 128 characters leaves as exactly one packet that the server
  reads back as the same text and whose handler cannot fail on it; a longer text is refused with
  the result 1 and nothing changes.
\<close>

lemma Post_bounds:
  assumes "online os c" and "NUL \<notin> set t"
  shows "if length t \<le> 128
    then \<exists>p. Post os t c = Inr (0, c\<lparr>lastSentSeqn := lastSentSeqn c + 1,
        cl_sent := cl_sent c @ [(server_sockaddr os c, p)]\<rparr>) \<and> packet_text p = Inr t \<and>
      ptype p = PACKET_SEND_CMD \<and> seqn p = lastSentSeqn c + 2 \<and> packet_wf p \<and> packet_ok p
    else Post os t c = Inr (1, c)"
proof (cases "length t \<le> 128")
  case True
  then show ?thesis using Post_online [OF assms True] by (simp add: emitted_def)
qed (simp add: Post_def)

text \<open>
  C21.  A session's commands: any sequence of follow requests, posts and information requests on a
  connected client runs without failure; the packets that leave, one for each call except the
  refused posts, are all well formed for the server and carry consecutive sequence numbers.
\<close>

theorem client_calls_numbered:
  assumes "online os c" and "\<forall>k \<in> set ks. call_ok k"
  shows "\<exists>ps. res_fold (run_call os) ks c = Inr (c\<lparr>lastSentSeqn := lastSentSeqn c + of_nat (length ps),
        cl_sent := cl_sent c @ map (\<lambda>p. (server_sockaddr os c, p)) ps\<rparr>) \<and>
    length ps = length (filter call_sends ks) \<and> (\<forall>p \<in> set ps. packet_wf p \<and> packet_ok p) \<and>
    (\<forall>i < length ps. seqn (ps ! i) = lastSentSeqn c + 2 + of_nat i)"
proof -
  have "\<exists>ps. res_fold (run_call os) ks c = Inr (emitted os ps c) \<and>
    length ps = length (filter call_sends ks) \<and> (\<forall>p \<in> set ps. packet_wf p \<and> packet_ok p) \<and>
    (\<forall>i < length ps. seqn (ps ! i) = lastSentSeqn c + 2 + of_nat i)"
    using assms
  proof (induction ks arbitrary: c)
    case Nil
    then show ?case by (intro exI [of _ "[]"]) simp
  next
    case (Cons k ks)
    from run_call_online [OF Cons.prems(1), of k] Cons.prems(2) obtain qs where
      qs: "run_call os k c = Inr (emitted os qs c)" "length qs = (if call_sends k then 1 else 0)"
        "\<forall>p \<in> set qs. seqn p = lastSentSeqn c + 2 \<and> packet_wf p \<and> packet_ok p" by auto
    from Cons.IH [of "emitted os qs c"] Cons.prems obtain ps where
      ps: "res_fold (run_call os) ks (emitted os qs c) = Inr (emitted os ps (emitted os qs c))"
        "length ps = length (filter call_sends ks)" "\<forall>p \<in> set ps. packet_wf p \<and> packet_ok p"
        "\<forall>i < length ps. seqn (ps ! i) = lastSentSeqn c + of_nat (length qs) + 2 + of_nat i" by auto
    have "\<forall>i < length (qs @ ps). seqn ((qs @ ps) ! i) = lastSentSeqn c + 2 + of_nat i"
    proof (cases "call_sends k")
      case True
      then obtain q where "qs = [q]" using qs(2) by (auto simp: length_Suc_conv)
      then show ?thesis using qs(3) ps(4) by (auto simp: nth_Cons algebra_simps split: nat.split)
    next
      case False
      then show ?thesis using qs(2) ps(4) by simp
    qed
    then show ?case using qs ps by (intro exI [of _ "qs @ ps"]) auto
  qed
  then show ?thesis by (simp add: emitted_def)
qed

theorem client_calls_numbered_witness:
  "\<exists>ps. res_fold (run_call example_os) [CallFollow ''bia'', CallPost ''hi'', CallInfo] example_cl =
      Inr (example_cl\<lparr>lastSentSeqn := lastSentSeqn example_cl + of_nat (length ps),
        cl_sent := cl_sent example_cl @ map (\<lambda>p. (server_sockaddr example_os example_cl, p)) ps\<rparr>) \<and> length ps = 3"
  using client_calls_numbered [OF example_cl_online, of "[CallFollow ''bia'', CallPost ''hi'', CallInfo]"]
  by (auto simp: NUL_def)

text \<open>
  Notifications are shown in the order of their sequence numbers: whatever order equal numbers
  are sorted in, a round of the reordering loop hands every packet that arrived to the message
  handler exactly once, sorted by number, and empties the list; when the numbers are distinct the
  result does not depend on the sorting function.
\<close>

lemma Reorder_ordered:
  assumes "std_sort sorter (seqn :: Packet \<Rightarrow> u64)" and "\<forall>p \<in> set (PacketList c). \<exists>t. packet_text p = Inr t"
    and "messageHandler c"
  shows "\<exists>ps. Reorder_round sorter c = Inr (c\<lparr>PacketList := [],
      handled := handled c @ map (\<lambda>p. (projr (packet_text p), Notification)) ps\<rparr>) \<and>
    mset ps = mset (PacketList c) \<and> sorted (map seqn ps) \<and>
    (distinct (map seqn (PacketList c)) \<longrightarrow> ps = sort_key seqn (PacketList c))"
proof -
  have "\<forall>p \<in> set (sorter (PacketList c)). \<exists>t. packet_text p = Inr t"
    using assms(2) by (simp add: std_sort.set_sorter [OF assms(1)])
  from deliver_all [OF this, of "c\<lparr>PacketList := sorter (PacketList c)\<rparr>"] assms(3)
  have "Reorder_round sorter c = Inr (c\<lparr>PacketList := [],
      handled := handled c @ map (\<lambda>p. (projr (packet_text p), Notification)) (sorter (PacketList c))\<rparr>)"
    by (simp add: Reorder_round_def)
  then show ?thesis
    using std_sort.permutes [OF assms(1)] std_sort.ordered [OF assms(1)] std_sort.unique_order [OF assms(1)] by blast
qed

text \<open>
  The profile name is trimmed exactly: the constructor's name is the given text without some
  blanks at its two ends, and neither end of it is a blank.
\<close>

lemma trim_copy_exact:
  "\<exists>b e. s = b @ trim_copy s @ e \<and> (\<forall>c \<in> set b \<union> set e. isspace c) \<and>
    (trim_copy s \<noteq> [] \<longrightarrow> \<not> isspace (hd (trim_copy s)) \<and> \<not> isspace (last (trim_copy s)))"
  using trim_split [of s] trim_ends [of s] unfolding trim_copy_def by (metis Un_iff)

end
