(* ===== verification/Feed.thy ===== *)
theory Feed
  imports Interleaving Client "HOL-Library.Sublist"
begin

text \<open>
  From the queue to the feed.  A run of the server is a sequence of handled packets and worker
  rounds, one at a time, each with its own view of the operating system.  The theorems say that the server sends
  only well-formed packets of the four types it is meant to send, that every queued notification
  gets its turn after as many rounds as there are notifications before it, whatever is handled in
  between, what one pass of the worker over the queue sends, and in which order a client shows the
  notifications of a pass when datagrams are lost, reordered and spread over the rounds of its
  reordering loop.
\<close>

section \<open>Runs\<close>

datatype event = Handle Packet SocketAddress | Work

fun serve :: "Os \<times> event \<Rightarrow> Server \<Rightarrow> Server res" where
  "serve (os, Handle m a) s = MessageHandler os m a s"
| "serve (os, Work) s = Worker_round os s"

fun event_ok :: "Os \<times> event \<Rightarrow> bool" where
  "event_ok (os, Handle m a) \<longleftrightarrow> packet_wf m \<and> packet_fits m"
| "event_ok (os, Work) \<longleftrightarrow> True"

definition is_Work :: "Os \<times> event \<Rightarrow> bool" where
  "is_Work e \<longleftrightarrow> snd e = Work"

definition feed_ok :: "Server \<Rightarrow> bool" where
  "feed_ok s \<longleftrightarrow> server_ok s \<and> shared_inv s"

lemma feed_ok_init: "server_init s \<Longrightarrow> feed_ok s"
  by (simp add: feed_ok_def server_init_ok server_init_shared)

text \<open>The recipient of a notification in the queue, and what notifications are sent as.\<close>

abbreviation addresses_of :: "Server \<Rightarrow> PendingNotification \<Rightarrow> SocketAddress list" where
  "addresses_of s n \<equiv> user_sockets (recipient n) (profileManager s) (sessionManager s)"

abbreviation text_of :: "PendingNotification \<Rightarrow> string" where
  "text_of n \<equiv> notification_text (pn_body n) (senderUsername n)"

lemma note_facts:
  assumes "feed_ok s" and "n \<in> set (notificationQueue s)"
  shows "GetSession (recipient n) (profileManager s) \<noteq> Indeterminate" "NUL \<notin> set (pn_body n)"
    "NUL \<notin> set (senderUsername n)" "length (pn_body n) + length (senderUsername n) \<le> 508"
  using assms
  by (fastforce simp: feed_ok_def server_ok_def sessions_known_def shared_inv_def note_ok_def name_ok_def)+

lemma Worker_round_returns:
  assumes "feed_ok s"
  shows "\<exists>s'. Worker_round os s = Inr s'"
proof (cases "notificationQueue s")
  case (Cons n ns)
  then have n: "n \<in> set (notificationQueue s)" by simp
  note f = note_facts [OF assms n]
  show ?thesis
    using Worker_round_connected [OF Cons f(1), of os]
      notify_all [OF f(2-4), of os "addresses_of s n" "s\<lparr>notificationQueue := ns\<rparr>"]
    by (auto simp: Let_def)
qed (simp add: Worker_round_def)

lemma serve_ok:
  assumes "feed_ok s" and "event_ok e"
  shows "\<exists>s'. serve e s = Inr s' \<and> feed_ok s'"
proof (cases e)
  case (Pair os x)
  have inv: "server_inv s" "server_ok s" "shared_inv s" using assms(1) by (auto simp: feed_ok_def server_ok_def)
  show ?thesis
  proof (cases x)
    case (Handle m a)
    then have fits: "packet_fits m" using assms(2) Pair by simp
    then obtain s' where s': "MessageHandler os m a s = Inr s'" "server_ok s'"
      using MessageHandler_outcome [OF inv(1), of os m a] inv(2) by (metis packet_fits_def)
    moreover have "shared_inv s'"
      using guarded_run [OF safe_handler [OF fits, of os a] inv(3)] s'(1) by (simp add: run_handler)
    ultimately show ?thesis using Pair Handle by (simp add: feed_ok_def)
  next
    case Work
    obtain s' where s': "Worker_round os s = Inr s'" using Worker_round_returns [OF assms(1)] by blast
    then have "shared_inv s'" using guarded_run [OF safe_worker [of os] inv(3)] by (simp add: run_worker)
    then show ?thesis using Worker_round_inv(2) [OF inv(1) s' inv(2)] s' Pair Work by (simp add: feed_ok_def)
  qed
qed

section \<open>What a step adds\<close>

definition sendable :: "Packet \<Rightarrow> bool" where
  "sendable p \<longleftrightarrow> packet_wf p \<and>
     ptype p \<in> {PACKET_CONNECT_CMD, PACKET_ACCEPT_CONN_CMD, PACKET_NOTIFICATION, PACKET_CONFIRM_STATE_CHANGE}"

definition emits :: "Server \<Rightarrow> Server \<Rightarrow> bool" where
  "emits s s' \<longleftrightarrow> (\<exists>out. sent s' = sent s @ out \<and> (\<forall>(h, p) \<in> set out. sendable p))"

lemma emits_refl [simp]: "emits s s"
  by (simp add: emits_def)

lemma emits_trans: "emits s t \<Longrightarrow> emits t u \<Longrightarrow> emits s u"
  unfolding emits_def by fastforce

lemma emits_datagrams:
  "sent s' = sent s @ datagrams os sk aps \<Longrightarrow> (\<And>a p. (a, p) \<in> set aps \<Longrightarrow> sendable p) \<Longrightarrow> emits s s'"
  unfolding emits_def by (auto simp: datagrams_def)

lemma sendable_built [simp]:
  "sendable (MakeAcceptConnCommand now n)" "sendable (MakeConfirmStateChangeMessage now n)"
  by (simp_all add: sendable_def MakeAcceptConnCommand_def MakeConfirmStateChangeMessage_def)

lemma confirm_adds:
  assumes "replica_inv rm" and "ConfirmMessage os k rm s = Inr (rm', s')"
  shows "notificationQueue s' = notificationQueue s" "emits s s'"
proof -
  obtain out where s': "s' = s\<lparr>sent := sent s @ out\<rparr>" using ConfirmMessage_cases [OF assms(1), of os k s] assms(2) by auto
  then show "notificationQueue s' = notificationQueue s" by simp
  show "emits s s'"
  proof (cases "confirmationBuffer rm")
    case (Some b)
    then show ?thesis using ConfirmMessage_primary [OF assms(1) Some, of os k s] assms(2)
      by (auto intro!: emits_datagrams simp: accept_of_def)
  next
    case None
    let ?m = "MakeConfirmStateChangeMessage (os_time os) k"
    have "\<not> IsPrimary rm" using None assms(1) by (simp add: replica_inv_def)
    then obtain p r where "socket_send os (GetSocketAddress p) ?m s = Inr (r, s')"
      using assms(2) by (auto simp: ConfirmMessage_def res_simps)
    moreover have "nameable (ptype ?m)" by (simp add: MakeConfirmStateChangeMessage_def)
    ultimately show ?thesis
      using socket_send_eq [of ?m os "GetSocketAddress p" s] by (auto simp: emits_def)
  qed
qed

lemma replicate_adds:
  assumes "replica_inv (replicaManager s)" and "ptype m = PACKET_CONNECT_CMD" and "packet_wf m"
    and "replicate_state os m a s = Inr s'"
  shows "notificationQueue s' = notificationQueue s" "emits s s'"
proof -
  show "notificationQueue s' = notificationQueue s"
    using replicate_state_cases [OF assms(1,2), of os a] assms(4) by auto
  show "emits s s'"
  proof (cases "IsPrimary (replicaManager s)")
    case True
    then obtain b where b: "confirmationBuffer (replicaManager s) = Some b"
      using assms(1) by (auto simp: replica_inv_def split: option.splits)
    have copy: "sendable (m\<lparr>seqn := k\<rparr>)" for k using assms(2,3) by (simp add: sendable_def packet_wf_def)
    show ?thesis
      using assms(4) True BroadcastToSecondaries_eq [OF assms(2) b, of os a s]
      by (auto simp: replicate_state_def copy intro!: emits_datagrams)
  next
    case False
    then obtain rm t where t: "ConfirmMessage os (seqn m) (replicaManager s) s = Inr (rm, t)" "sent s' = sent t"
      using assms(4) by (auto simp: replicate_state_def res_simps)
    then show ?thesis using confirm_adds(2) [OF assms(1) t(1)] by (simp add: emits_def)
  qed
qed

lemma connect_adds:
  assumes "server_inv s" and "ptype m = PACKET_CONNECT_CMD" and "packet_wf m" and "handle_CONNECT os m a s = Inr s'"
  shows "notificationQueue s' = notificationQueue s" "emits s s'"
proof -
  obtain pm sm where r: "replicate_state os m a (s\<lparr>profileManager := pm, sessionManager := sm\<rparr>) = Inr s'"
    using assms(4) unfolding handle_CONNECT_eq
    by (auto simp: res_simps split_def)
  have ri: "replica_inv (replicaManager (s\<lparr>profileManager := pm, sessionManager := sm\<rparr>))"
    using assms(1) by (simp add: server_inv_def)
  show "notificationQueue s' = notificationQueue s" "emits s s'"
    using replicate_adds [OF ri assms(2,3) r] by (simp_all add: emits_def)
qed

text \<open>A handler only appends to the queue and only sends well-formed packets.\<close>

lemma handler_adds:
  assumes "server_inv s" and "packet_wf m" and "MessageHandler os m a s = Inr s'"
  shows "(\<exists>new. notificationQueue s' = notificationQueue s @ new) \<and> emits s s'"
proof -
  have fold: "(\<exists>new. notificationQueue t = notificationQueue s @ new) \<and> emits s t"
    if "res_fold (\<lambda>f s. res_bind (packet_text m) (\<lambda>b.
      Inr (s\<lparr>notificationQueue := notificationQueue s @ [PendingNotification_new u b f]\<rparr>))) fs s = Inr t" for u fs t
    by (rule res_fold_invariant [OF that]) (auto simp: res_simps emits_def)
  consider (c) "ptype m = PACKET_CONNECT_CMD" "handle_CONNECT os m a s = Inr s'"
    | (d) "handle_DISCONNECT m a s = Inr s'" | (f) "handle_FOLLOW m a s = Inr s'" | (s) "handle_SEND m a s = Inr s'"
    | (i) "handle_USER_INFO a s = Inr s'" | (k) "handle_CONFIRM os m s = Inr s'" | (x) "s' = s"
    using assms(3) by (auto simp: MessageHandler_def res_simps split: if_splits)
  then show ?thesis
  proof cases
    case c
    then show ?thesis using connect_adds [OF assms(1) c(1) assms(2) c(2)] by simp
  next
    case d
    then show ?thesis by (auto simp: handle_DISCONNECT_def res_simps split_def Let_def emits_def split: option.splits)
  next
    case f
    then show ?thesis using handle_FOLLOW_cases [OF f] by (auto simp: emits_def)
  next
    case s
    then show ?thesis using fold by (auto simp: handle_SEND_def split: option.splits)
  next
    case i
    then show ?thesis by (auto simp: handle_USER_INFO_def res_simps split: option.splits)
  next
    case k
    then obtain rm t where t: "ConfirmMessage os (seqn m) (replicaManager s) s = Inr (rm, t)" "s' = t\<lparr>replicaManager := rm\<rparr>"
      by (auto simp: handle_CONFIRM_def res_simps)
    have "replica_inv (replicaManager s)" using assms(1) by (simp add: server_inv_def)
    from confirm_adds [OF this t(1)] t(2) show ?thesis by (simp add: emits_def)
  qed simp
qed

text \<open>A round of the worker takes the first notification, and possibly puts it back.\<close>

lemma worker_adds:
  assumes "Worker_round os s = Inr s'"
  shows "emits s s'" "notificationQueue s = n # ns \<Longrightarrow> \<exists>new. notificationQueue s' = ns @ new"
proof -
  have one: "notificationQueue t' = notificationQueue t \<and> emits t t'" if h: "notify os x a t = Inr t'" for x a t t'
  proof -
    obtain p where p: "MakeNotification (os_time os) (lastSeqn t + 1) (pn_body x) (senderUsername x) = Inr p"
      "t' = t\<lparr>lastSeqn := lastSeqn t + 1, sent := sent t @ datagrams os (srv_socket t) [(a, p)]\<rparr>"
      using h unfolding notify_eq res_bind_Inr_conv by blast
    have "sendable p"
      using p(1) strcpy_payload_InrD by (fastforce simp: MakeNotification_def Let_def sendable_def packet_wf_def)
    then show ?thesis using p(2) by (auto simp: emits_def)
  qed
  have all: "notificationQueue t = q \<and> emits s t" if "res_fold (notify os x) ss (s\<lparr>notificationQueue := q\<rparr>) = Inr t" for x ss q t
    by (rule res_fold_invariant [OF that]) (auto simp: emits_def dest!: one intro: emits_trans [unfolded emits_def])
  consider "s' = s" "notificationQueue s = []"
    | x xs ss where "notificationQueue s = x # xs" "res_fold (notify os x) ss (s\<lparr>notificationQueue := xs\<rparr>) = Inr s'"
    | x xs where "notificationQueue s = x # xs" "s' = s\<lparr>notificationQueue := xs @ [x]\<rparr>"
    using assms by (auto simp: Worker_round_def Let_def res_simps split: list.splits if_splits)
  note c = this
  show "emits s s'" using c all by cases (auto simp: emits_def)
  show "\<exists>new. notificationQueue s' = ns @ new" if "notificationQueue s = n # ns"
    using c all that by cases auto
qed

lemma serve_adds:
  assumes "feed_ok s" and "event_ok e" and "serve e s = Inr s'"
  shows "emits s s'" "\<not> is_Work e \<Longrightarrow> \<exists>new. notificationQueue s' = notificationQueue s @ new"
    "is_Work e \<Longrightarrow> notificationQueue s = n # ns \<Longrightarrow> \<exists>new. notificationQueue s' = ns @ new"
proof -
  have inv: "server_inv s" using assms(1) by (simp add: feed_ok_def server_ok_def)
  obtain os x where e: "e = (os, x)" by fastforce
  show "emits s s'" using assms handler_adds [OF inv] worker_adds(1) e by (cases x) auto
  show "\<exists>new. notificationQueue s' = notificationQueue s @ new" if "\<not> is_Work e"
    using assms handler_adds [OF inv] that e by (cases x) (auto simp: is_Work_def)
  show "\<exists>new. notificationQueue s' = ns @ new" if "is_Work e" "notificationQueue s = n # ns"
    using assms worker_adds(2) that e by (auto simp: is_Work_def)
qed

lemma run_adds:
  assumes "feed_ok s" and "\<forall>e \<in> set evs. event_ok e"
  shows "\<exists>s'. res_fold serve evs s = Inr s' \<and> feed_ok s' \<and> emits s s'"
  using assms
proof (induction evs arbitrary: s)
  case Nil
  then show ?case by simp
next
  case (Cons e evs)
  obtain t where t: "serve e s = Inr t" "feed_ok t" using serve_ok [of s e] Cons.prems by auto
  then show ?case
    using Cons.IH [of t] Cons.prems serve_adds(1) [of s e t] emits_trans by fastforce
qed

text \<open>Where a notification is after some steps: each round of the worker brings it one place forward.\<close>

lemma run_turn:
  assumes "feed_ok s" and "\<forall>e \<in> set evs. event_ok e" and "length (filter is_Work evs) = i"
    and "i < length (notificationQueue s)"
  shows "\<exists>s' ns. res_fold serve evs s = Inr s' \<and> feed_ok s' \<and> notificationQueue s' = notificationQueue s ! i # ns"
  using assms
proof (induction evs arbitrary: s i)
  case Nil
  then show ?case by (cases "notificationQueue s") auto
next
  case (Cons e evs)
  obtain t where t: "serve e s = Inr t" "feed_ok t" using serve_ok [of s e] Cons.prems by auto
  have ok: "event_ok e" "\<forall>e \<in> set evs. event_ok e" using Cons.prems(2) by simp_all
  show ?case
  proof (cases "is_Work e")
    case False
    then obtain new where "notificationQueue t = notificationQueue s @ new"
      using serve_adds(2) [OF Cons.prems(1) ok(1) t(1)] by blast
    then show ?thesis using Cons.IH [OF t(2) ok(2), of i] Cons.prems(3,4) t False by (simp add: nth_append)
  next
    case True
    then obtain j where j: "i = Suc j" "length (filter is_Work evs) = j" using Cons.prems(3) by auto
    then obtain n ns where q: "notificationQueue s = n # ns" using Cons.prems(4) by (cases "notificationQueue s") auto
    then obtain new where "notificationQueue t = ns @ new"
      using serve_adds(3) [OF Cons.prems(1) ok(1) t(1) True] by blast
    then show ?thesis using Cons.IH [OF t(2) ok(2) j(2)] Cons.prems(4) t q j by (simp add: nth_append)
  qed
qed

section \<open>A pass of the worker\<close>

lemma notify_round:
  assumes "feed_ok s" and "notificationQueue s = n # ns"
  shows "\<exists>ps. Worker_round os s = Inr (s\<lparr>notificationQueue := ns @ (if addresses_of s n = [] then [n] else []),
        lastSeqn := lastSeqn s + of_nat (length (addresses_of s n)),
        sent := sent s @ datagrams os (srv_socket s) (zip (addresses_of s n) ps)\<rparr>) \<and>
    map packet_text ps = replicate (length (addresses_of s n)) (Inr (text_of n)) \<and>
    map seqn ps = map (\<lambda>i. lastSeqn s + 2 + of_nat i) [0..<length (addresses_of s n)] \<and>
    (\<forall>p \<in> set ps. ptype p = PACKET_NOTIFICATION)"
proof -
  have n: "n \<in> set (notificationQueue s)" using assms(2) by simp
  note f = note_facts [OF assms(1) n]
  let ?ss = "addresses_of s n"
  obtain ps where ps: "res_fold (notify os n) ?ss (s\<lparr>notificationQueue := ns\<rparr>) =
      Inr (s\<lparr>notificationQueue := ns, lastSeqn := lastSeqn s + of_nat (length ?ss),
        sent := sent s @ datagrams os (srv_socket s) (zip ?ss ps)\<rparr>)" "length ps = length ?ss"
    "\<forall>i < length ?ss. ptype (ps ! i) = PACKET_NOTIFICATION \<and> seqn (ps ! i) = lastSeqn s + 2 + of_nat i \<and>
      packet_text (ps ! i) = Inr (text_of n)"
    using notify_all [OF f(2-4), of os ?ss "s\<lparr>notificationQueue := ns\<rparr>"] by auto
  have "Worker_round os s = Inr (s\<lparr>notificationQueue := ns @ (if ?ss = [] then [n] else []),
        lastSeqn := lastSeqn s + of_nat (length ?ss), sent := sent s @ datagrams os (srv_socket s) (zip ?ss ps)\<rparr>)"
    using Worker_round_connected [OF assms(2) f(1), of os] ps(1) by (simp add: Let_def)
  moreover have "map packet_text ps = replicate (length ?ss) (Inr (text_of n))"
    "map seqn ps = map (\<lambda>i. lastSeqn s + 2 + of_nat i) [0..<length ?ss]"
    using ps(2,3) by (auto intro: nth_equalityI)
  moreover have "\<forall>p \<in> set ps. ptype p = PACKET_NOTIFICATION" using ps(2,3) by (auto simp: in_set_conv_nth)
  ultimately show ?thesis by blast
qed

lemma worker_pass:
  assumes "feed_ok s" and "notificationQueue s = q @ r"
  shows "\<exists>ps. res_fold (\<lambda>_. Worker_round os) q s =
      Inr (s\<lparr>notificationQueue := r @ filter (\<lambda>n. addresses_of s n = []) q, lastSeqn := lastSeqn s + of_nat (length ps),
        sent := sent s @ datagrams os (srv_socket s) (zip (concat (map (addresses_of s) q)) ps)\<rparr>) \<and>
    map packet_text ps = concat (map (\<lambda>n. replicate (length (addresses_of s n)) (Inr (text_of n))) q) \<and>
    map seqn ps = map (\<lambda>i. lastSeqn s + 2 + of_nat i) [0..<length ps] \<and>
    (\<forall>p \<in> set ps. ptype p = PACKET_NOTIFICATION)"
  using assms
proof (induction q arbitrary: s r)
  case Nil
  then show ?case by (intro exI [of _ "[]"]) simp
next
  case (Cons n q)
  let ?ss = "addresses_of s n" and ?r = "r @ (if addresses_of s n = [] then [n] else [])"
  obtain ps where w: "Worker_round os s = Inr (s\<lparr>notificationQueue := q @ ?r,
        lastSeqn := lastSeqn s + of_nat (length ?ss), sent := sent s @ datagrams os (srv_socket s) (zip ?ss ps)\<rparr>)"
    (is "_ = Inr ?t")
    and ps: "map packet_text ps = replicate (length ?ss) (Inr (text_of n))"
      "map seqn ps = map (\<lambda>i. lastSeqn s + 2 + of_nat i) [0..<length ?ss]" "\<forall>p \<in> set ps. ptype p = PACKET_NOTIFICATION"
    using notify_round [OF Cons.prems(1), of n "q @ r" os] Cons.prems(2) by auto
  have len: "length ps = length ?ss" using arg_cong [OF ps(1), of length] by simp
  have "feed_ok ?t" using serve_ok [OF Cons.prems(1), of "(os, Work)"] w by simp
  from Cons.IH [OF this, of ?r] obtain qs where qs: "res_fold (\<lambda>_. Worker_round os) q ?t =
      Inr (?t\<lparr>notificationQueue := ?r @ filter (\<lambda>n. addresses_of s n = []) q,
        lastSeqn := lastSeqn s + of_nat (length ?ss) + of_nat (length qs),
        sent := sent ?t @ datagrams os (srv_socket s) (zip (concat (map (addresses_of s) q)) qs)\<rparr>)"
    "map packet_text qs = concat (map (\<lambda>n. replicate (length (addresses_of s n)) (Inr (text_of n))) q)"
    "map seqn qs = map (\<lambda>i. lastSeqn s + of_nat (length ?ss) + 2 + of_nat i) [0..<length qs]"
    "\<forall>p \<in> set qs. ptype p = PACKET_NOTIFICATION" by auto
  have "[0..<length ps + length qs] = [0..<length ps] @ map (\<lambda>i. i + length ps) [0..<length qs]"
    by (simp add: map_add_upt upt_add_eq_append [of 0] add.commute)
  then have "map seqn (ps @ qs) = map (\<lambda>i. lastSeqn s + 2 + of_nat i) [0..<length (ps @ qs)]"
    by (simp add: ps(2) qs(3) len algebra_simps)
  moreover have "datagrams os k (zip ?ss ps) @ datagrams os k (zip as qs) = datagrams os k (zip (?ss @ as) (ps @ qs))" for k as
    using len by (simp add: datagrams_def)
  ultimately show ?case
    using w ps(1,3) qs(1,2,4) len by (intro exI [of _ "ps @ qs"]) (simp add: add.assoc ball_Un)
qed

lemma subseq_sorted_wrt: "subseq xs ys \<Longrightarrow> sorted_wrt P ys \<Longrightarrow> sorted_wrt P xs"
  by (induction rule: list_emb.induct) (auto dest: list_emb_set)

lemma datagrams_subseq:
  "length as = length qs \<Longrightarrow> subseq (map snd (filter (\<lambda>(h, p). h = x) (datagrams os k (zip as qs)))) qs"
  by (induction as qs rule: list_induct2) (auto simp: datagrams_def)

text \<open>Numbers that do not wrap around are in order.\<close>

lemma consecutive_sorted:
  assumes "unat (n :: u64) + k \<le> 2 ^ 64"
  shows "sorted_wrt (<) (map (\<lambda>i. n + of_nat i) [0..<k])"
proof -
  have "n + of_nat i < n + of_nat j" if "i < j" "j < k" for i j
  proof -
    have "unat (n + of_nat m) = unat n + m" if "m < k" for m
      using assms that by (simp add: unat_word_ariths unat_of_nat)
    then show ?thesis using that by (simp add: word_less_nat_alt)
  qed
  then show ?thesis by (auto simp: sorted_wrt_iff_nth_less)
qed

text \<open>A server with two notifications for a connected user.\<close>

definition example_notes :: "PendingNotification list" where
  "example_notes = [PendingNotification_new ''ana'' ''hi'' 1, PendingNotification_new ''ana'' ''ho'' 1]"

definition example_feed :: Server where
  "example_feed = example_two\<lparr>notificationQueue := example_notes\<rparr>"

lemma example_feed_ok: "feed_ok example_feed"
proof -
  have ok: "server_ok example_feed"
    using example_two_ok
    by (simp add: server_ok_def server_inv_def example_feed_def example_notes_def PendingNotification_new_def example_two_def)
  have "\<forall>p < length (profileHeap (profileManager example_feed)). name_ok (GetHandle p (profileManager example_feed))"
    by (auto simp: example_feed_def example_two_def GetHandle_def name_ok_def NUL_def less_Suc_eq)
  moreover have "\<forall>n \<in> set (notificationQueue example_feed). note_ok n"
    by (simp add: example_feed_def example_notes_def PendingNotification_new_def note_ok_def name_ok_def NUL_def)
  ultimately have "shared_inv example_feed"
    using ok by (simp add: shared_inv_def server_ok_def server_inv_def store_inv_def)
  with ok show ?thesis by (simp add: feed_ok_def)
qed

lemma example_feed_facts:
  "user_sockets (Suc 0) (profileManager example_feed) (sessionManager example_feed) =
     [\<lparr>address = ''10.0.0.2'', port = 5001\<rparr>, \<lparr>address = ''10.0.0.2'', port = 5002\<rparr>]"
  "lastSeqn example_feed = 0" "sent example_feed = []" "socketDesc (srv_socket example_feed) = 3"
  "notificationQueue example_feed = example_notes"
  by (simp_all add: example_feed_def example_two_def user_sockets_def GetSession_def example_server_def Bind_def Socket_new_def)

lemma example_send_fits: "packet_wf example_send" "packet_fits example_send"
proof -
  obtain p where "MakeSendCommand 1600000000 4 ''hi'' = Inr p" "packet_wf p"
    using Make_init [of "''hi''" 1600000000 PACKET_SEND_CMD "4 + 1" "length ''hi''"]
    by (auto simp: MakeSendCommand_def NUL_def)
  then show "packet_wf example_send" by (simp add: example_send_def)
  show "packet_fits example_send" using example_send_ok example_send_facts by (simp add: packet_fits_def)
qed

section \<open>Properties\<close>

text \<open>
  C11.  Everything a server sends is a packet: a server that is started without a profile file and that
  is the primary or knows one handles any sequence of well-formed packets with names of at most 380
  and posts of at most 128 characters, and of worker rounds, one at a time, without failure, and
  every datagram it has sent is a complete packet of one of the four types CONNECT, ACCEPT,
  NOTIFICATION and CONFIRM; the state satisfies the invariant again.  The functions without a return
  statement whose value is not used are taken to return.
\<close>

theorem server_sends_packets:
  assumes "server_init s" and "\<forall>e \<in> set evs. event_ok e"
  shows "\<exists>s'. res_fold serve evs s = Inr s' \<and> feed_ok s' \<and>
    (\<forall>(h, p) \<in> set (sent s'). packet_wf p \<and>
       ptype p \<in> {PACKET_CONNECT_CMD, PACKET_ACCEPT_CONN_CMD, PACKET_NOTIFICATION, PACKET_CONFIRM_STATE_CHANGE})"
proof -
  obtain s' where s': "res_fold serve evs s = Inr s'" "feed_ok s'" "emits s s'"
    using run_adds [OF feed_ok_init [OF assms(1)] assms(2)] by blast
  have "sent s = []" using assms(1) by (auto simp: server_init_def Server_new_fresh res_simps)
  then show ?thesis using s' by (auto simp: emits_def sendable_def)
qed

theorem server_sends_packets_witness:
  "\<exists>s'. res_fold serve [(example_os, Handle example_connect example_client), (example_os, Work)] example_server = Inr s' \<and>
    feed_ok s' \<and> (\<forall>(h, p) \<in> set (sent s'). packet_wf p \<and>
       ptype p \<in> {PACKET_CONNECT_CMD, PACKET_ACCEPT_CONN_CMD, PACKET_NOTIFICATION, PACKET_CONFIRM_STATE_CHANGE})"
  by (rule server_sends_packets [OF example_server_init]) (simp add: example_packets_fit)

text \<open>
  C7.  No notification starves: a notification with \<open>i\<close> others before it is at the head of the queue
  after \<open>i\<close> rounds of the worker, whatever packets are handled in between; the next round then sends
  it to every address at which its recipient is connected, or, if there is none, keeps it as the
  last of the queue.
\<close>

theorem notification_turn:
  assumes "feed_ok s" and "i < length (notificationQueue s)" and "n = notificationQueue s ! i"
    and "\<forall>e \<in> set evs. event_ok e" and "length (filter is_Work evs) = i"
  shows "\<exists>s' ns ps s''. res_fold serve evs s = Inr s' \<and> notificationQueue s' = n # ns \<and>
    Worker_round os s' = Inr s'' \<and> map packet_text ps = replicate (length (addresses_of s' n)) (Inr (text_of n)) \<and>
    sent s'' = sent s' @ datagrams os (srv_socket s') (zip (addresses_of s' n) ps) \<and>
    notificationQueue s'' = ns @ (if addresses_of s' n = [] then [n] else [])"
proof -
  obtain s' ns where s': "res_fold serve evs s = Inr s'" "feed_ok s'" "notificationQueue s' = n # ns"
    using run_turn [OF assms(1,4,5,2)] assms(3) by blast
  then show ?thesis using notify_round [OF s'(2,3), of os] by fastforce
qed

theorem notification_turn_witness:
  "\<exists>s' ns ps s''. res_fold serve [(example_os, Handle example_send example_client), (example_os, Work)] example_feed = Inr s' \<and>
    notificationQueue s' = PendingNotification_new ''ana'' ''ho'' 1 # ns \<and> Worker_round example_os s' = Inr s'' \<and>
    sent s'' = sent s' @ datagrams example_os (srv_socket s') (zip (addresses_of s' (PendingNotification_new ''ana'' ''ho'' 1)) ps)"
proof -
  let ?evs = "[(example_os, Handle example_send example_client), (example_os, Work)]"
  have "\<forall>e \<in> set ?evs. event_ok e" by (simp add: example_send_fits)
  moreover have "length (filter is_Work ?evs) = 1" by (simp add: is_Work_def)
  moreover have "1 < length (notificationQueue example_feed)"
    "PendingNotification_new ''ana'' ''ho'' 1 = notificationQueue example_feed ! 1"
    by (simp_all add: example_feed_facts(5) example_notes_def)
  ultimately show ?thesis using notification_turn [OF example_feed_ok, of 1 _ ?evs example_os] by metis
qed

text \<open>
  C9.  A pass of the worker: as many rounds as the queue is long send every notification whose
  recipient is connected, in the order of the queue and to each of the recipient's addresses, with
  consecutive sequence numbers, and leave exactly the other notifications in the queue, in order.
\<close>

theorem Worker_drains:
  assumes "feed_ok s"
  shows "\<exists>ps s'. res_fold (\<lambda>_. Worker_round os) (notificationQueue s) s = Inr s' \<and>
    notificationQueue s' = filter (\<lambda>n. addresses_of s n = []) (notificationQueue s) \<and>
    sent s' = sent s @ datagrams os (srv_socket s) (zip (concat (map (addresses_of s) (notificationQueue s))) ps) \<and>
    map packet_text ps = concat (map (\<lambda>n. replicate (length (addresses_of s n)) (Inr (text_of n))) (notificationQueue s)) \<and>
    map seqn ps = map (\<lambda>i. lastSeqn s + 2 + of_nat i) [0..<length ps] \<and>
    lastSeqn s' = lastSeqn s + of_nat (length ps) \<and>
    profileManager s' = profileManager s \<and> sessionManager s' = sessionManager s"
  using worker_pass [OF assms, of "notificationQueue s" "[]" os] by fastforce

theorem Worker_drains_witness:
  "\<exists>(ps :: Packet list) s'. res_fold (\<lambda>_. Worker_round example_os) example_notes example_feed = Inr s' \<and> notificationQueue s' = [] \<and>
    map packet_text ps = map Inr [''@ana:'' @ [CHR 0x0A] @ ''hi'', ''@ana:'' @ [CHR 0x0A] @ ''hi'',
      ''@ana:'' @ [CHR 0x0A] @ ''ho'', ''@ana:'' @ [CHR 0x0A] @ ''ho''] \<and> map seqn ps = [2, 3, 4, 5]"
proof -
  have q: "concat (map (\<lambda>n. replicate (length (addresses_of example_feed n)) (Inr (text_of n))) example_notes) =
      map Inr [''@ana:'' @ [CHR 0x0A] @ ''hi'', ''@ana:'' @ [CHR 0x0A] @ ''hi'',
        ''@ana:'' @ [CHR 0x0A] @ ''ho'', ''@ana:'' @ [CHR 0x0A] @ ''ho'']"
    "filter (\<lambda>n. addresses_of example_feed n = []) example_notes = []"
    by (simp_all add: example_notes_def PendingNotification_new_def example_feed_facts(1) notification_text_def)
  obtain ps s' where ps: "res_fold (\<lambda>_. Worker_round example_os) example_notes example_feed = Inr s'"
    "notificationQueue s' = []" "map packet_text ps = map Inr [''@ana:'' @ [CHR 0x0A] @ ''hi'', ''@ana:'' @ [CHR 0x0A] @ ''hi'',
      ''@ana:'' @ [CHR 0x0A] @ ''ho'', ''@ana:'' @ [CHR 0x0A] @ ''ho'']"
    "map seqn ps = map (\<lambda>i. 0 + 2 + of_nat i) [0..<length ps]"
    using Worker_drains [OF example_feed_ok, of example_os] unfolding example_feed_facts(2-5) q by blast
  have "length ps = 4" using arg_cong [OF ps(3), of length] by simp
  then have "map seqn ps = [2, 3, 4, 5]" using ps(4) by (simp add: upt_rec)
  from this ps(1-3) show ?thesis by (intro exI [of _ ps] exI [of _ s'] conjI)
qed

text \<open>Rounds of the reordering loop, for packets with distinct numbers.\<close>

lemma dispatch_notifications:
  assumes "\<forall>p \<in> set ps. ptype p = PACKET_NOTIFICATION"
  shows "res_fold (dispatch co) ps c = Inr (c\<lparr>PacketList := PacketList c @ ps\<rparr>)"
  using assms by (induction ps arbitrary: c) (simp_all add: dispatch_def)

lemma Reorder_rounds_eq:
  assumes "std_sort sorter (seqn :: Packet \<Rightarrow> u64)" and "\<forall>p \<in> set (concat bs). \<exists>t. packet_text p = Inr t"
    and "distinct (map seqn (concat bs))" and "messageHandler c" and "PacketList c = []"
    and "\<forall>p \<in> set (concat bs). ptype p = PACKET_NOTIFICATION"
  shows "Reorder_rounds co sorter bs c = Inr (c\<lparr>handled := handled c @
    map (\<lambda>p. (projr (packet_text p), Notification)) (concat (map (sort_key seqn) bs))\<rparr>)"
  using assms(2-6)
proof (induction bs arbitrary: c)
  case Nil
  then show ?case by (simp add: Reorder_rounds_def)
next
  case (Cons b bs)
  let ?show = "map (\<lambda>p. (projr (packet_text p), Notification))"
  have sort: "sorter b = sort_key seqn b" using std_sort.unique_order [OF assms(1), of b] Cons.prems(2) by simp
  have "\<forall>p \<in> set (sorter b). \<exists>t. packet_text p = Inr t"
    using Cons.prems(1) by (simp add: std_sort.set_sorter [OF assms(1)])
  from deliver_all [OF this, of "c\<lparr>PacketList := sorter b\<rparr>"] Cons.prems(3,4)
  have "Reorder_round sorter (c\<lparr>PacketList := b\<rparr>) =
      Inr (c\<lparr>handled := handled c @ ?show (sort_key seqn b)\<rparr>)"
    by (cases c) (simp add: Reorder_round_def sort)
  moreover have "res_fold (dispatch co) b c = Inr (c\<lparr>PacketList := b\<rparr>)"
    using dispatch_notifications [of b co c] Cons.prems(4,5) by simp
  ultimately show ?case
    using Cons.IH [of "c\<lparr>handled := handled c @ ?show (sort_key seqn b)\<rparr>"] Cons.prems
    by (simp add: Reorder_rounds_def)
qed

text \<open>Batches that are sorted one by one are in order together when no later one has a smaller number.\<close>

abbreviation in_batches :: "Packet list list \<Rightarrow> bool" where
  "in_batches \<equiv> sorted_wrt (\<lambda>b b'. \<forall>p \<in> set b. \<forall>p' \<in> set b'. seqn p < seqn p')"

lemma batches_sorted:
  fixes ps :: "Packet list"
  assumes "mset (concat bs) = mset ps" and "sorted_wrt (<) (map seqn ps)"
  shows "concat (map (sort_key seqn) bs) = ps \<longleftrightarrow> in_batches bs"
proof -
  let ?qs = "concat (map (sort_key seqn) bs)"
  have m: "mset ?qs = mset (concat bs)" by (induction bs) auto
  have d: "distinct (map seqn (concat bs))"
    using assms by (metis mset_map distinct_count_atmost_1 strict_sorted_iff mset_eq_imp_distinct_iff)
  have "sorted_wrt (\<lambda>p p'. seqn p < seqn p') (sort_key seqn b)" if "b \<in> set bs" for b :: "Packet list"
  proof -
    have "distinct (map seqn b)" using d that by (auto simp: map_concat distinct_concat_iff)
    then have "distinct (map seqn (sort_key seqn b))"
      by (metis mset_eq_imp_distinct_iff mset_map mset_sort)
    then have "sorted_wrt (<) (map seqn (sort_key seqn b))" by (simp add: strict_sorted_iff)
    then show ?thesis by (simp add: sorted_wrt_map)
  qed
  then have "sorted_wrt (<) (map seqn ?qs) \<longleftrightarrow> in_batches bs"
    by (simp add: sorted_wrt_map sorted_wrt_concat)
  moreover have "?qs = ps" if "sorted_wrt (<) (map seqn ?qs)"
    by (rule sorted_key_unique [of _ _ seqn]) (use that assms m in \<open>simp_all add: strict_sorted_iff\<close>)
  ultimately show ?thesis using assms(2) by auto
qed

text \<open>
  C8.  The order of a feed: of the notifications that one pass of the worker sends to an address,
  let any be lost, and let the rest arrive in any order and spread in any way over the rounds of
  the client's reordering loop.  As long as the sequence counter does not wrap around in the pass,
  the client shows each of them exactly once, sorted by number within a round, whatever sorting
  function is used; and this is the order in which they were queued if and only if no packet
  arrives in a later round than one that was queued after it.  Since the loop does not pause
  between its rounds, nothing in the program makes this so: packets that overtake each other on the
  network are shown in order only when one round finds them together.
\<close>

theorem feed_in_order:
  assumes "feed_ok s" and "res_fold (\<lambda>_. Worker_round os) (notificationQueue s) s = Inr s'"
    and "unat (lastSeqn s + 2) + length (concat (map (addresses_of s) (notificationQueue s))) \<le> 2 ^ 64"
    and "subseq ps (map snd (filter (\<lambda>(h, p). h = x) (drop (length (sent s)) (sent s'))))"
    and "mset (concat bs) = mset ps" and "messageHandler c" and "PacketList c = []"
    and "std_sort sorter (seqn :: Packet \<Rightarrow> u64)"
  shows "Reorder_rounds co sorter bs c = Inr (c\<lparr>handled := handled c @
      map (\<lambda>p. (projr (packet_text p), Notification)) (concat (map (sort_key seqn) bs))\<rparr>) \<and>
    (concat (map (sort_key seqn) bs) = ps \<longleftrightarrow>
      sorted_wrt (\<lambda>b b'. \<forall>p \<in> set b. \<forall>p' \<in> set b'. seqn p < seqn p') bs)"
proof -
  let ?q = "notificationQueue s"
  let ?as = "concat (map (addresses_of s) ?q)"
  obtain qs where qs: "s' = s\<lparr>notificationQueue := filter (\<lambda>n. addresses_of s n = []) ?q, lastSeqn := lastSeqn s + of_nat (length qs),
        sent := sent s @ datagrams os (srv_socket s) (zip ?as qs)\<rparr>"
    "map packet_text qs = concat (map (\<lambda>n. replicate (length (addresses_of s n)) (Inr (text_of n))) ?q)"
    "map seqn qs = map (\<lambda>i. lastSeqn s + 2 + of_nat i) [0..<length qs]"
    "\<forall>p \<in> set qs. ptype p = PACKET_NOTIFICATION"
    using worker_pass [OF assms(1), of ?q "[]" os] assms(2) by auto
  have len: "length qs = length ?as"
    using arg_cong [OF qs(2), of length] by (simp add: length_concat comp_def)
  have sub: "subseq ps qs"
    using assms(4) datagrams_subseq [of ?as qs x os "srv_socket s"] len by (simp add: qs(1) subseq_order.order_trans)
  have "sorted_wrt (<) (map seqn qs)"
    unfolding qs(3) by (rule consecutive_sorted) (use assms(3) len in simp)
  then have asc: "sorted_wrt (<) (map seqn ps)" using subseq_sorted_wrt [OF subseq_map [OF sub]] by blast
  have d: "distinct (map seqn (concat bs))"
    using asc assms(5) by (metis mset_eq_imp_distinct_iff mset_map strict_sorted_iff)
  have set: "set (concat bs) = set ps" using assms(5) by (metis set_mset_mset)
  have in_qs: "p \<in> set qs" if "p \<in> set ps" for p using list_emb_set [OF sub that] by metis
  have "\<exists>t. packet_text p = Inr t" if "p \<in> set ps" for p
  proof -
    have "packet_text p \<in> set (map packet_text qs)" using in_qs [OF that] by simp
    then show ?thesis unfolding qs(2) by auto
  qed
  then have "\<forall>p \<in> set (concat bs). \<exists>t. packet_text p = Inr t" unfolding set by blast
  moreover have "\<forall>p \<in> set (concat bs). ptype p = PACKET_NOTIFICATION" unfolding set using in_qs qs(4) by blast
  ultimately have "Reorder_rounds co sorter bs c = Inr (c\<lparr>handled := handled c @
      map (\<lambda>p. (projr (packet_text p), Notification)) (concat (map (sort_key seqn) bs))\<rparr>)"
    by (intro Reorder_rounds_eq [OF assms(8) _ d assms(6,7)])
  from this batches_sorted [OF assms(5) asc] show ?thesis by (rule conjI)
qed

lemma example_pass:
  obtains s' p p' where "res_fold (\<lambda>_. Worker_round example_os) (notificationQueue example_feed) example_feed = Inr s'"
    "map snd (filter (\<lambda>(h, p). h = recipient_of example_os \<lparr>address = ''10.0.0.2'', port = 5001\<rparr>)
      (drop (length (sent example_feed)) (sent s'))) = [p, p']"
proof -
  obtain s' ps where s': "res_fold (\<lambda>_. Worker_round example_os) (notificationQueue example_feed) example_feed = Inr s'"
    "sent s' = datagrams example_os (srv_socket example_feed) (zip (concat (map (addresses_of example_feed) example_notes)) ps)"
    "length ps = 4"
    using worker_pass [OF example_feed_ok, of "notificationQueue example_feed" "[]" example_os]
    by (fastforce simp: example_feed_facts example_notes_def PendingNotification_new_def dest: arg_cong [of _ _ length])
  obtain a b c d where ps: "ps = [a, b, c, d]" using s'(3) by (auto simp: numeral_eq_Suc length_Suc_conv)
  have "delivers example_os (srv_socket example_feed) x y" for x y
    by (simp add: delivers_def example_feed_facts example_os_def)
  then have "map snd (filter (\<lambda>(h, p). h = recipient_of example_os \<lparr>address = ''10.0.0.2'', port = 5001\<rparr>)
      (drop (length (sent example_feed)) (sent s'))) = [a, c]"
    by (simp add: s'(2) ps example_feed_facts example_notes_def PendingNotification_new_def recipient_of_def htons_def)
  with s'(1) show ?thesis by (rule that)
qed

text \<open>Two packets that overtake each other: shown in order in one round, not in two.\<close>

theorem feed_in_order_witness:
  "\<exists>s' p p'. res_fold (\<lambda>_. Worker_round example_os) (notificationQueue example_feed) example_feed = Inr s' \<and>
    map snd (filter (\<lambda>(h, p). h = recipient_of example_os \<lparr>address = ''10.0.0.2'', port = 5001\<rparr>) (sent s')) = [p, p'] \<and>
    Reorder_rounds example_os (sort_key seqn) [[p', p]] example_cl = Inr (example_cl\<lparr>handled := handled example_cl @
      map (\<lambda>p. (projr (packet_text p), Notification)) [p, p']\<rparr>) \<and>
    Reorder_rounds example_os (sort_key seqn) [[p'], [p]] example_cl = Inr (example_cl\<lparr>handled := handled example_cl @
      map (\<lambda>p. (projr (packet_text p), Notification)) [p', p]\<rparr>)"
proof -
  let ?x = "recipient_of example_os \<lparr>address = ''10.0.0.2'', port = 5001\<rparr>"
  obtain s' p p' where s': "res_fold (\<lambda>_. Worker_round example_os) (notificationQueue example_feed) example_feed = Inr s'"
    and two: "map snd (filter (\<lambda>(h, p). h = ?x) (drop (length (sent example_feed)) (sent s'))) = [p, p']"
    by (rule example_pass)
  have n: "unat (lastSeqn example_feed + 2) +
      length (concat (map (addresses_of example_feed) (notificationQueue example_feed))) \<le> 2 ^ 64"
    by (simp add: example_feed_facts example_notes_def PendingNotification_new_def)
  have cl: "messageHandler example_cl" "PacketList example_cl = []" by (simp_all add: example_cl_def Client_new_def)
  have r: "Reorder_rounds example_os (sort_key seqn) bs example_cl = Inr (example_cl\<lparr>handled := handled example_cl @
        map (\<lambda>p. (projr (packet_text p), Notification)) (concat (map (sort_key seqn) bs))\<rparr>) \<and>
      (concat (map (sort_key seqn) bs) = [p, p'] \<longleftrightarrow>
        sorted_wrt (\<lambda>b b'. \<forall>p \<in> set b. \<forall>p' \<in> set b'. seqn p < seqn p') bs)" if "mset (concat bs) = mset [p, p']" for bs
    by (rule feed_in_order [OF example_feed_ok s' n, of "[p, p']" ?x, unfolded two, OF subseq_order.order_refl that cl
          stable.std_sort_axioms])
  have 1: "Reorder_rounds example_os (sort_key seqn) [[p', p]] example_cl = Inr (example_cl\<lparr>handled := handled example_cl @
      map (\<lambda>p. (projr (packet_text p), Notification)) [p, p']\<rparr>)"
    using r [of "[[p', p]]"] by (simp del: sort_key_simps)
  have 2: "Reorder_rounds example_os (sort_key seqn) [[p'], [p]] example_cl = Inr (example_cl\<lparr>handled := handled example_cl @
      map (\<lambda>p. (projr (packet_text p), Notification)) [p', p]\<rparr>)"
    using r [of "[[p'], [p]]"] by simp
  show ?thesis using s' two 1 2 by (auto simp: example_feed_facts(3))
qed

end
