(* ===== verification/Console.thy ===== *)
theory Console
  imports Client
begin

text \<open>
  The console interface (\<open>source/client/console/\<close>: \<open>message.hpp\<close>, \<open>message.cpp\<close>,
  \<open>parser.hpp\<close>, \<open>parser.cpp\<close>, \<open>console.hpp\<close>, \<open>console.cpp\<close>): the commands a user types, the
  editing of the input line, the list of messages with its cursor, and the layout of a frame as
  the list of drawing calls, in the order in which the program makes them.  The key codes and the screen size of ncurses and \<open>ctime\<close> are
  parameters.  Texts with accents are the bytes of the source's UTF-8 literals.
\<close>

section \<open>Messages\<close>

record ConsoleMessage =
  cm_type :: MessageType
  cm_body :: string
  cm_timestamp :: "u64 option"

definition ConsoleMessage2 :: "MessageType \<Rightarrow> string \<Rightarrow> ConsoleMessage" where
  "ConsoleMessage2 ty b = \<lparr>cm_type = ty, cm_body = b, cm_timestamp = None\<rparr>"

definition ConsoleMessage3 :: "MessageType \<Rightarrow> string \<Rightarrow> u64 \<Rightarrow> ConsoleMessage" where
  "ConsoleMessage3 ty b t = \<lparr>cm_type = ty, cm_body = b, cm_timestamp = Some t\<rparr>"

definition MakeInfoMessage :: "string \<Rightarrow> u64 \<Rightarrow> ConsoleMessage" where
  "MakeInfoMessage b t = ConsoleMessage3 Info b t"

definition MakeErrorMessage :: "string \<Rightarrow> u64 \<Rightarrow> ConsoleMessage" where
  "MakeErrorMessage b t = ConsoleMessage3 Error b t"

definition MakeNotificationMessage :: "string \<Rightarrow> u64 \<Rightarrow> ConsoleMessage" where
  "MakeNotificationMessage b t = ConsoleMessage3 Notification b t"

section \<open>The command parser\<close>

record CommandParserResult =
  foundMatch :: bool
  command :: string
  arguments :: "string list"

definition no_match :: CommandParserResult where
  "no_match = \<lparr>foundMatch = False, command = [], arguments = []\<rparr>"

definition parser_split :: "string \<Rightarrow> string list" where
  "parser_split input = words input"

text \<open>\<open>slice(arr, X, Y)\<close> with the bounds its iterators need.\<close>

definition slice :: "'a list \<Rightarrow> int \<Rightarrow> int \<Rightarrow> 'a list res" where
  "slice arr x y =
     (if 0 \<le> x \<and> x \<le> y + 1 \<and> y + 1 \<le> int (length arr)
      then Inr (take (nat (y - x + 1)) (drop (nat x) arr)) else Inl IndexOutOfRange)"

definition ParseCommand :: "string \<Rightarrow> string option" where
  "ParseCommand s = (if length s > 1 \<and> s ! 0 = CHR ''/'' then Some (drop 1 s) else None)"

definition ParseInput :: "string \<Rightarrow> CommandParserResult res" where
  "ParseInput input =
     (if length input > 0 then
        (let pieces = parser_split input in
         if length pieces > 0 then
           (case ParseCommand (pieces ! 0) of
              Some c \<Rightarrow>
                res_bind (slice pieces 1 (int (length pieces) - 1)) (\<lambda>args.
                  Inr \<lparr>foundMatch = True, command = c, arguments = args\<rparr>)
            | None \<Rightarrow> Inr no_match)
         else Inr no_match)
      else Inr no_match)"

section \<open>The console\<close>

record Curses =
  KEY_BACKSPACE :: int
  KEY_ENTER :: int
  KEY_UP :: int
  KEY_DOWN :: int
  LINES :: int
  COLS :: int
  ctime :: "u64 \<Rightarrow> string"

text \<open>
  The drawing calls.  The input handling draws too, outside of the drawing functions: its calls are
  recorded with the console, in \<open>drawn\<close>.
\<close>

datatype draw = mvaddstr int int string | mvaddch int int char | attron nat | attroff nat
  | clear | border string | move int int | refresh

record Console =
  client :: Client
  userInput :: string
  running :: bool
  shouldRefresh :: bool
  messages :: "ConsoleMessage list"
  messageCursor :: int
  drawn :: "draw list"

definition Console_new :: "Client \<Rightarrow> Console" where
  "Console_new c = \<lparr>client = SetMessageHandlerFunc c, userInput = [], running = False, shouldRefresh = True,
     messages = [], messageCursor = 0, drawn = []\<rparr>"

definition Console_Stop :: "Console \<Rightarrow> Console" where
  "Console_Stop con = con\<lparr>running := False\<rparr>"

definition push_message :: "ConsoleMessage \<Rightarrow> Console \<Rightarrow> Console" where
  "push_message m con = con\<lparr>messages := messages con @ [m]\<rparr>"

definition IncomingMessageHandler :: "u64 \<Rightarrow> string \<Rightarrow> MessageType \<Rightarrow> Console \<Rightarrow> Console" where
  "IncomingMessageHandler now message ty con =
     (case ty of
        Notification \<Rightarrow> push_message (MakeNotificationMessage message now) con
      | Info \<Rightarrow> push_message (MakeInfoMessage message now) con
      | Error \<Rightarrow> push_message (MakeErrorMessage message now) con)"

definition follow_usage_text :: string where
  "follow_usage_text = ''Um nome de usu'' @ [CHR 0xC3, CHR 0xA1] @ ''rio precisa ser informado''"

definition help_text :: string where
  "help_text = ''Comandos dispon'' @ [CHR 0xC3, CHR 0xAD] @ ''veis:'' @ [CHR 0x0A] @
     ''/follow [username]'' @ [CHR 0x09] @ ''Segue um usu'' @ [CHR 0xC3, CHR 0xA1] @ ''rio'' @ [CHR 0x0A] @
     ''/help'' @ [CHR 0x09] @ ''Mostra essa p'' @ [CHR 0xC3, CHR 0xA1] @ ''gina de ajuda'' @ [CHR 0x0A] @
     ''/exit'' @ [CHR 0x09] @ ''Sai do programa''"

definition HandleUserInput :: "Os \<Rightarrow> string \<Rightarrow> Console \<Rightarrow> Console res" where
  "HandleUserInput os input con =
     res_bind (ParseInput input) (\<lambda>parsed.
       if foundMatch parsed then
         (let con1 = con\<lparr>drawn := drawn con @ [mvaddstr 3 3 (c_str (command parsed))]\<rparr> in
          if command parsed = ''follow'' then
            (if length (arguments parsed) = 1
             then res_bind (FollowUser os (arguments parsed ! 0) (client con1)) (\<lambda>(_, c). Inr (con1\<lparr>client := c\<rparr>))
             else Inr (push_message (MakeErrorMessage follow_usage_text (os_time os)) con1))
          else if command parsed = ''help'' then Inr (push_message (MakeInfoMessage help_text (os_time os)) con1)
          else if command parsed = ''me'' then Inr con1
          else if command parsed = ''exit'' then Inr (Console_Stop con1)
          else Inr con1)
       else res_bind (Post os (userInput con) (client con)) (\<lambda>(_, c). Inr (con\<lparr>client := c\<rparr>)))"

text \<open>\<open>ctrl(x)\<close> is \<open>x & 0x1f\<close>; \<open>ctrl('c')\<close> is 3.\<close>

abbreviation (input) ctrl_c :: int where "ctrl_c \<equiv> 3"

definition ClearUserInput :: "Console \<Rightarrow> Console" where
  "ClearUserInput con = con\<lparr>userInput := []\<rparr>"

definition GetUserInput :: "Curses \<Rightarrow> Os \<Rightarrow> int \<Rightarrow> Console \<Rightarrow> Console res" where
  "GetUserInput cs os ch con =
     (if ch = KEY_BACKSPACE cs \<or> ch = 127 then
        Inr (if length (userInput con) > 0 then con\<lparr>userInput := butlast (userInput con)\<rparr> else con)
      else if ch = KEY_ENTER cs \<or> ch = 10 \<or> ch = 13 then
        res_bind (HandleUserInput os (userInput con) con) (\<lambda>con'. Inr (con'\<lparr>userInput := []\<rparr>))
      else if ch = ctrl_c then Inr (con\<lparr>running := False\<rparr>)
      else if ch = KEY_UP cs then
        Inr (if 0 \<le> messageCursor con \<and> messageCursor con < int (length (messages con))
             then con\<lparr>messageCursor := messageCursor con + 1\<rparr> else con)
      else if ch = KEY_DOWN cs then
        Inr (if messageCursor con > 0 then con\<lparr>messageCursor := messageCursor con - 1\<rparr> else con)
      else Inr (con\<lparr>userInput := userInput con @ [char_of (nat (ch mod 256))]\<rparr>))"

section \<open>Drawing\<close>

definition DrawTitle :: "Curses \<Rightarrow> draw list" where
  "DrawTitle cs = [mvaddstr 1 (COLS cs div 2 - int (length ''PiuPiu'')) ''PiuPiu'']"

definition DrawFrame :: "Curses \<Rightarrow> draw list" where
  "DrawFrame cs = map (\<lambda>i. mvaddch (LINES cs - 3) i CHR ''-'') [1..COLS cs - 2] @ [mvaddstr (LINES cs - 2) 1 ''ENVIAR:'']"

definition DrawUserInput :: "Curses \<Rightarrow> Console \<Rightarrow> draw list" where
  "DrawUserInput cs con = [mvaddstr (LINES cs - 2) 9 (c_str (userInput con))]"

definition splitString :: "string \<Rightarrow> string list" where
  "splitString str = getlines (CHR 0x0A) str"

definition SplitMessage :: "string \<Rightarrow> int \<Rightarrow> string list" where
  "SplitMessage message padding = map (\<lambda>s. [] @ s) (splitString message)"

definition styled :: "MessageType \<Rightarrow> draw \<Rightarrow> draw list" where
  "styled ty d =
     (case ty of
        Notification \<Rightarrow> [d]
      | Error \<Rightarrow> [attron 1, d, attroff 1]
      | Info \<Rightarrow> [attron 2, d, attroff 2])"

text \<open>The inner loop of \<open>DrawMessages\<close>, over the lines from the last to the first.\<close>

fun draw_lines :: "int \<Rightarrow> int \<Rightarrow> MessageType \<Rightarrow> string list \<Rightarrow> int \<Rightarrow> draw list \<times> int" where
  "draw_lines lastLine totalLines ty [] lineCount = ([], lineCount)"
| "draw_lines lastLine totalLines ty (l # ls) lineCount =
     (if lineCount < totalLines then
        (let (ds, n) = draw_lines lastLine totalLines ty ls (lineCount + 1)
         in (styled ty (mvaddstr (lastLine - lineCount) 3 (c_str l)) @ ds, n))
      else ([], lineCount))"

text \<open>The outer loop: the message at the index, then the one before it.\<close>

fun draw_loop :: "Curses \<Rightarrow> ConsoleMessage list \<Rightarrow> int \<Rightarrow> int \<Rightarrow> nat \<Rightarrow> int \<Rightarrow> draw list res" where
  "draw_loop cs ms lastLine totalLines 0 lineCount = Inr []"
| "draw_loop cs ms lastLine totalLines (Suc k) lineCount =
     (if lineCount < totalLines then
        (if Suc k < length ms then
           (let message = ms ! Suc k;
                lns = splitString (cm_body message) @ [[]]
            in (case cm_timestamp message of
                  None \<Rightarrow> Inl UninitialisedRead
                | Some t \<Rightarrow>
                    (let dt = [attron 3, mvaddstr (lastLine - lineCount - int (length lns) + 1) 30 (ctime cs t), attroff 3];
                         (ds, n) = draw_lines lastLine totalLines (cm_type message) (rev lns) lineCount
                     in res_bind (draw_loop cs ms lastLine totalLines k n) (\<lambda>rs. Inr (dt @ ds @ rs)))))
         else Inl IndexOutOfRange)
      else Inr [])"

definition DrawMessages :: "Curses \<Rightarrow> Console \<Rightarrow> draw list res" where
  "DrawMessages cs con =
     (let firstLine = 2; lastLine = LINES cs - 4; totalLines = lastLine - firstLine;
          currentMessageIdx = int (length (messages con)) - messageCursor con - 1
      in if length (messages con) > 0
         then draw_loop cs (messages con) lastLine totalLines (nat currentMessageIdx) 0
         else Inr [])"

definition DrawStatus :: "Console \<Rightarrow> draw list res" where
  "DrawStatus con =
     (if IsConnected (client con)
      then res_bind (GetHostStr (client con)) (\<lambda>host.
        Inr [mvaddstr 0 4 ''Status:'', attron 2, mvaddstr 0 11 '' Conectado em '', mvaddstr 0 25 (c_str host), attroff 2])
      else Inr [mvaddstr 0 4 ''Status:'', attron 1,
        mvaddstr 0 11 ('' N'' @ [CHR 0xC3, CHR 0xA3] @ ''o conectado''), attroff 1])"

text \<open>
  One round of \<open>MainLoop\<close>: the frame, then the key that \<open>getch\<close> returned, with what its handling
  draws, then the update of the screen.
\<close>

definition MainLoop_round :: "Curses \<Rightarrow> Os \<Rightarrow> int \<Rightarrow> Console \<Rightarrow> (draw list \<times> Console) res" where
  "MainLoop_round cs os ch con =
     (if running con then
        res_bind (DrawMessages cs con) (\<lambda>ms.
          res_bind (DrawStatus con) (\<lambda>st.
            res_bind (GetUserInput cs os ch con) (\<lambda>con'.
              Inr ([clear, border ''||--++++''] @ DrawFrame cs @ DrawUserInput cs con @ DrawTitle cs @ ms @ st @
                   [move 0 0] @ drop (length (drawn con)) (drawn con') @ [refresh], con'))))
      else Inr ([], con))"

definition InputLoop_round :: "Curses \<Rightarrow> Os \<Rightarrow> int \<Rightarrow> Console \<Rightarrow> Console res" where
  "InputLoop_round cs os ch con =
     res_bind (GetUserInput cs os ch con) (\<lambda>con'. Inr (con'\<lparr>shouldRefresh := True\<rparr>))"

definition Console_Start :: "Console \<Rightarrow> Console" where
  "Console_Start con = con\<lparr>running := True\<rparr>"

section \<open>Parsing\<close>

lemma words_join:
  assumes "w \<noteq> []" and "\<forall>c \<in> set w. \<not> isspace c" and "\<forall>a \<in> set as. a \<noteq> [] \<and> (\<forall>c \<in> set a. \<not> isspace c)"
  shows "words (w @ concat (map (\<lambda>a. CHR '' '' # a) as)) = w # as"
  using assms
proof (induction as arbitrary: w)
  case Nil
  then show ?case by (simp add: words_single)
next
  case (Cons a as)
  let ?r = "a @ concat (map (\<lambda>a. CHR '' '' # a) as)"
  have sp: "isspace CHR '' ''" by (simp add: isspace_def)
  have "words (w @ CHR '' '' # ?r) = w # words (CHR '' '' # ?r)" using Cons.prems sp by (intro words_word) auto
  also have "words (CHR '' '' # ?r) = words ?r" using words_blank [of "[CHR '' '']" ?r] sp by simp
  also have "words ?r = a # as" using Cons by (intro Cons.IH) auto
  finally show ?case by simp
qed

definition is_command :: "string \<Rightarrow> bool" where
  "is_command s \<longleftrightarrow> words s \<noteq> [] \<and> ParseCommand (hd (words s)) \<noteq> None"

lemma ParseInput_total: "\<exists>r. ParseInput s = Inr r \<and> foundMatch r = is_command s"
proof (cases "words s")
  case Nil
  then show ?thesis by (auto simp: ParseInput_def parser_split_def is_command_def no_match_def)
next
  case (Cons w ws)
  then have "s \<noteq> []" by auto
  with Cons show ?thesis
    by (auto simp: ParseInput_def parser_split_def is_command_def no_match_def slice_def Let_def split: option.split)
qed

lemma ParseInput_command:
  assumes "c \<noteq> []" and "\<forall>x \<in> set c. \<not> isspace x" and "\<forall>a \<in> set as. a \<noteq> [] \<and> (\<forall>x \<in> set a. \<not> isspace x)"
  shows "ParseInput (''/'' @ c @ concat (map (\<lambda>a. CHR '' '' # a) as)) = Inr \<lparr>foundMatch = True, command = c, arguments = as\<rparr>"
proof -
  have "words ((''/'' @ c) @ concat (map (\<lambda>a. CHR '' '' # a) as)) = (''/'' @ c) # as"
    using assms by (intro words_join) (auto simp: isspace_def)
  then have w: "words (CHR ''/'' # c @ concat (map (\<lambda>a. CHR '' '' # a) as)) = (CHR ''/'' # c) # as" by simp
  have "ParseCommand (CHR ''/'' # c) = Some c" using assms(1) by (simp add: ParseCommand_def)
  then show ?thesis by (simp add: ParseInput_def parser_split_def w slice_def Let_def)
qed

section \<open>Typing\<close>

text \<open>The function keys of curses lie outside the range of characters.\<close>

definition keys_ok :: "Curses \<Rightarrow> bool" where
  "keys_ok cs \<longleftrightarrow> (\<forall>k \<in> {KEY_BACKSPACE cs, KEY_ENTER cs, KEY_UP cs, KEY_DOWN cs}. 256 \<le> k)"

definition key_of :: "char \<Rightarrow> int" where
  "key_of c = int (of_char c)"

definition typable :: "char \<Rightarrow> bool" where
  "typable c \<longleftrightarrow> key_of c \<notin> {127, 10, 13, 3}"

lemma type_char:
  assumes "keys_ok cs" and "typable c"
  shows "GetUserInput cs os (key_of c) con = Inr (con\<lparr>userInput := userInput con @ [c]\<rparr>)"
proof -
  have lt: "key_of c < 256" "0 \<le> key_of c" by (simp_all add: key_of_def)
  then have ne: "key_of c \<noteq> KEY_BACKSPACE cs" "key_of c \<noteq> KEY_ENTER cs" "key_of c \<noteq> KEY_UP cs" "key_of c \<noteq> KEY_DOWN cs"
    using assms(1) by (auto simp: keys_ok_def)
  have "char_of (nat (key_of c mod 256)) = c" using lt by (simp add: key_of_def)
  with ne assms(2) show ?thesis by (simp add: GetUserInput_def typable_def)
qed

lemma type_text:
  assumes "keys_ok cs" and "\<forall>c \<in> set s. typable c"
  shows "res_fold (GetUserInput cs os) (map key_of s) con = Inr (con\<lparr>userInput := userInput con @ s\<rparr>)"
  using assms(2) by (induction s arbitrary: con) (simp_all add: type_char [OF assms(1)])

lemma type_line:
  assumes "keys_ok cs" and "\<forall>c \<in> set s. typable c" and "userInput con = []"
  shows "res_fold (GetUserInput cs os) (map key_of s @ [10]) con =
    res_bind (HandleUserInput os s (con\<lparr>userInput := s\<rparr>)) (\<lambda>con'. Inr (con'\<lparr>userInput := []\<rparr>))"
proof -
  have "GetUserInput cs os 10 (con\<lparr>userInput := s\<rparr>) =
      res_bind (HandleUserInput os s (con\<lparr>userInput := s\<rparr>)) (\<lambda>con'. Inr (con'\<lparr>userInput := []\<rparr>))"
    using assms(1) by (auto simp: GetUserInput_def keys_ok_def)
  moreover have "res_bind r (res_fold (GetUserInput cs os) []) = r" for r by (cases r) auto
  ultimately show ?thesis using assms by (simp add: res_fold_append type_text)
qed

section \<open>The message list\<close>

definition console_ok :: "Console \<Rightarrow> bool" where
  "console_ok con \<longleftrightarrow> 0 \<le> messageCursor con \<and> messageCursor con \<le> int (length (messages con)) \<and>
     (\<forall>m \<in> set (messages con). cm_timestamp m \<noteq> None)"

lemma push_ok: "console_ok con \<Longrightarrow> cm_timestamp m \<noteq> None \<Longrightarrow> console_ok (push_message m con)"
  by (auto simp: console_ok_def push_message_def)

lemmas message_defs = MakeErrorMessage_def MakeInfoMessage_def MakeNotificationMessage_def ConsoleMessage3_def

lemma HandleUserInput_ok:
  assumes "console_ok con" and "HandleUserInput os s con = Inr con'"
  shows "console_ok con'"
proof -
  have upd: "console_ok (con\<lparr>client := c\<rparr>)" "console_ok (con\<lparr>drawn := ds\<rparr>)" "console_ok (con\<lparr>drawn := ds, client := c\<rparr>)"
    "console_ok (Console_Stop (con\<lparr>drawn := ds\<rparr>))" for c ds
    using assms(1) by (simp_all add: console_ok_def Console_Stop_def)
  show ?thesis using assms upd push_ok [OF upd(2)]
    by (auto simp: HandleUserInput_def res_simps message_defs Let_def split: if_splits)
qed

lemma GetUserInput_ok:
  assumes "console_ok con" and "GetUserInput cs os ch con = Inr con'"
  shows "console_ok con'"
proof -
  have "console_ok (con''\<lparr>userInput := s\<rparr>)" if "console_ok con''" for con'' s using that by (simp add: console_ok_def)
  then show ?thesis using assms HandleUserInput_ok [OF assms(1)]
    by (auto simp: GetUserInput_def res_simps split: if_splits) (auto simp: console_ok_def)
qed

lemma IncomingMessageHandler_ok: "console_ok con \<Longrightarrow> console_ok (IncomingMessageHandler now s ty con)"
  by (cases ty) (auto simp: IncomingMessageHandler_def message_defs intro: push_ok)

text \<open>A console that has started, with keys pressed and messages arriving in any order.\<close>

inductive console_step :: "Console \<Rightarrow> Console \<Rightarrow> bool" where
  key: "GetUserInput cs os ch con = Inr con' \<Longrightarrow> console_step con con'"
| incoming: "console_step con (IncomingMessageHandler now s ty con)"

definition console_init :: "Console \<Rightarrow> bool" where
  "console_init con \<longleftrightarrow> (\<exists>c. con = Console_Start (Console_new c))"

interpretation screen: transition_invariant console_init console_step console_ok
proof
  show "console_init con \<Longrightarrow> console_ok con" for con
    by (auto simp: console_init_def console_ok_def Console_Start_def Console_new_def)
  show "console_ok con \<Longrightarrow> console_step con con' \<Longrightarrow> console_ok con'" for con con'
    by (auto elim!: console_step.cases intro: GetUserInput_ok IncomingMessageHandler_ok)
qed

text \<open>
  Where a frame draws the messages: lines of text in column 3, the time of a message in column 30,
  as many rows above the line before it as its text has lines.
\<close>

fun row_ok :: "Curses \<Rightarrow> ConsoleMessage list \<Rightarrow> int \<Rightarrow> int \<Rightarrow> draw \<Rightarrow> bool" where
  "row_ok cs ms lo hi (mvaddstr y x t) \<longleftrightarrow>
     x = 3 \<and> lo \<le> y \<and> y \<le> hi \<and> (\<exists>m \<in> set ms. \<exists>l \<in> set (splitString (cm_body m) @ [[]]). t = c_str l) \<or>
     x = 30 \<and> (\<exists>m \<in> set ms. \<exists>now. cm_timestamp m = Some now \<and> t = ctime cs now \<and>
       lo - int (length (splitString (cm_body m))) \<le> y \<and> y \<le> hi)"
| "row_ok cs ms lo hi (attron p) \<longleftrightarrow> True"
| "row_ok cs ms lo hi (attroff p) \<longleftrightarrow> True"
| "row_ok cs ms lo hi d \<longleftrightarrow> False"

lemma draw_lines_rows:
  assumes "0 \<le> n" and "m \<in> set ms" and "set ls \<subseteq> set (splitString (cm_body m) @ [[]])"
  shows "n \<le> snd (draw_lines lastL tot ty ls n)"
    "list_all (row_ok cs ms (lastL - tot + 1) lastL) (fst (draw_lines lastL tot ty ls n))"
  using assms(1,3)
proof (induction ls arbitrary: n)
  case (Cons l ls)
  {
    case 1
    then show ?case using Cons.IH(1) [of "n + 1"] by (auto simp: split_def Let_def)
  next
    case 2
    have "\<exists>m \<in> set ms. \<exists>l' \<in> set (splitString (cm_body m) @ [[]]). c_str l = c_str l'" using assms(2) 2(2) by auto
    then show ?case using 2 Cons.IH(2) [of "n + 1"] by (cases ty) (auto simp: split_def Let_def styled_def)
  }
qed auto

lemma draw_loop_rows:
  assumes "k < length ms" and "\<forall>m \<in> set ms. cm_timestamp m \<noteq> None" and "0 \<le> n"
  shows "\<exists>ds. draw_loop cs ms lastL tot k n = Inr ds \<and> list_all (row_ok cs ms (lastL - tot + 1) lastL) ds"
  using assms
proof (induction k arbitrary: n)
  case 0
  then show ?case by simp
next
  case (Suc k)
  show ?case
  proof (cases "n < tot")
    case True
    let ?m = "ms ! Suc k"
    have m: "?m \<in> set ms" using Suc.prems(1) by simp
    obtain t where t: "cm_timestamp ?m = Some t" using Suc.prems(2) m by (meson option.exhaust)
    let ?ls = "rev (splitString (cm_body ?m) @ [[]])"
    obtain ds n' where d: "draw_lines lastL tot (cm_type ?m) ?ls n = (ds, n')" by fastforce
    have "n \<le> n'" "list_all (row_ok cs ms (lastL - tot + 1) lastL) ds"
      using draw_lines_rows(1) [OF Suc.prems(3) m, where ls = ?ls and lastL = lastL and tot = tot and ty = "cm_type ?m"]
        draw_lines_rows(2) [OF Suc.prems(3) m, where ls = ?ls and lastL = lastL and tot = tot and ty = "cm_type ?m" and cs = cs] d
      by auto
    moreover have "row_ok cs ms (lastL - tot + 1) lastL (mvaddstr (lastL - n - int (length (splitString (cm_body ?m)))) 30 (ctime cs t))"
      using m t True Suc.prems(3) by (auto intro!: bexI [of _ ?m])
    moreover obtain rs where "draw_loop cs ms lastL tot k n' = Inr rs" "list_all (row_ok cs ms (lastL - tot + 1) lastL) rs"
      using Suc.IH [of n'] Suc.prems \<open>n \<le> n'\<close> by auto
    ultimately show ?thesis using True Suc.prems t d by (simp add: Let_def del: row_ok.simps(1)) (simp add: row_ok.simps(2,3))
  next
    case False
    then show ?thesis by simp
  qed
qed

lemma draw_loop_first:
  "length ms = length ms' \<Longrightarrow> (\<And>i. 0 < i \<Longrightarrow> ms ! i = ms' ! i) \<Longrightarrow>
    draw_loop cs ms lastL tot k n = draw_loop cs ms' lastL tot k n"
  by (induction k arbitrary: n) (auto simp: Let_def split_def split: option.split)

text \<open>A terminal of 24 lines with the key codes of ncurses.\<close>

definition example_curses :: Curses where
  "example_curses = \<lparr>KEY_BACKSPACE = 263, KEY_ENTER = 343, KEY_UP = 259, KEY_DOWN = 258, LINES = 24, COLS = 80,
     ctime = (\<lambda>_. ''now'')\<rparr>"

lemma example_keys: "keys_ok example_curses"
  by (simp add: keys_ok_def example_curses_def)

lemma DrawMessages_ok:
  assumes "console_ok con"
  shows "\<exists>ds. DrawMessages cs con = Inr ds \<and> (\<forall>d \<in> set ds. row_ok cs (messages con) 3 (LINES cs - 4) d)"
proof (cases "messages con = []")
  case True
  then show ?thesis by (simp add: DrawMessages_def)
next
  case False
  let ?k = "nat (int (length (messages con)) - messageCursor con - 1)"
  have "?k < length (messages con)" using assms False by (cases "messages con") (auto simp: console_ok_def)
  moreover have "\<forall>m \<in> set (messages con). cm_timestamp m \<noteq> None" using assms by (simp add: console_ok_def)
  ultimately obtain ds where d: "draw_loop cs (messages con) (LINES cs - 4) (LINES cs - 4 - 2) ?k 0 = Inr ds"
    "list_all (row_ok cs (messages con) (LINES cs - 4 - (LINES cs - 4 - 2) + 1) (LINES cs - 4)) ds"
    using draw_loop_rows [of ?k "messages con" 0 cs "LINES cs - 4" "LINES cs - 4 - 2"] by auto
  then have "DrawMessages cs con = Inr ds" using False by (simp add: DrawMessages_def)
  then show ?thesis using d(2) by (simp add: list_all_iff)
qed

text \<open>
  The time of the newest message when nothing is scrolled: it is drawn one row higher for every
  line of the text, so that for a text of more than \<open>LINES - 4\<close> lines the row is negative.
\<close>

lemma newest_timestamp:
  assumes "7 \<le> LINES cs" and "messages con = m # ms @ [newest]" and "messageCursor con = 0"
    and "cm_timestamp newest = Some now" and "DrawMessages cs con = Inr ds"
  shows "mvaddstr (LINES cs - 4 - int (length (splitString (cm_body newest)))) 30 (ctime cs now) \<in> set ds"
  using assms by (auto simp: DrawMessages_def Let_def res_simps split_def nth_append nat_add_distrib)

section \<open>Properties\<close>

text \<open>
  C32.  The command parser: a slash, a command and arguments separated by blanks parse into exactly
  that command and those arguments.
\<close>

theorem ParseInput_roundtrip:
  assumes "c \<noteq> []" and "\<forall>x \<in> set c. \<not> isspace x" and "\<forall>a \<in> set as. a \<noteq> [] \<and> (\<forall>x \<in> set a. \<not> isspace x)"
  shows "ParseInput (''/'' @ c @ concat (map (\<lambda>a. CHR '' '' # a) as)) = Inr \<lparr>foundMatch = True, command = c, arguments = as\<rparr>"
  by (rule ParseInput_command [OF assms])

theorem ParseInput_roundtrip_witness:
  "ParseInput (''/'' @ ''follow'' @ concat (map (\<lambda>a. CHR '' '' # a) [''bia'', ''now''])) =
    Inr \<lparr>foundMatch = True, command = ''follow'', arguments = [''bia'', ''now'']\<rparr>"
  by (rule ParseInput_roundtrip) (simp_all add: isspace_def)

text \<open>
  What is typed is what is posted: on an empty input line, typing a text of at most 128
  characters that is not a command and pressing enter sends exactly one SEND packet, whose text is
  the typed text, and clears the line.
\<close>

lemma typed_text_posted:
  assumes "keys_ok cs" and "\<forall>c \<in> set s. typable c \<and> c \<noteq> NUL" and "userInput con = []"
    and "\<not> is_command s" and "length s \<le> 128" and "online os (client con)"
  shows "\<exists>p. res_fold (GetUserInput cs os) (map key_of s @ [10]) con = Inr (con\<lparr>client := emitted os [p] (client con)\<rparr>) \<and>
    ptype p = PACKET_SEND_CMD \<and> packet_text p = Inr s"
proof -
  have "\<forall>c \<in> set s. typable c" "NUL \<notin> set s" using assms(2) by auto
  note t = type_line [OF assms(1) this(1) assms(3), of os]
  obtain p where p: "Post os s (client con) = Inr (0, emitted os [p] (client con))" "packet_text p = Inr s"
    "ptype p = PACKET_SEND_CMD" using Post_online [OF assms(6) \<open>NUL \<notin> set s\<close> assms(5)] by blast
  obtain r where "ParseInput s = Inr r" "\<not> foundMatch r" using ParseInput_total [of s] assms(4) by auto
  then have "HandleUserInput os s (con\<lparr>userInput := s\<rparr>) = Inr (con\<lparr>userInput := s, client := emitted os [p] (client con)\<rparr>)"
    using p(1) by (simp add: HandleUserInput_def)
  moreover have "con\<lparr>userInput := s, client := c, userInput := []\<rparr> = con\<lparr>client := c\<rparr>" for c
    using assms(3) by (cases con) simp
  ultimately show ?thesis using t p(2,3) by (intro exI [of _ p]) simp
qed

text \<open>
  The follow command: typing \<open>/follow\<close>, a blank and a name of at most 511 characters, and
  pressing enter, sends exactly one FOLLOW packet for that name.
\<close>

lemma typed_follow:
  assumes "keys_ok cs" and "\<forall>c \<in> set u. typable c \<and> \<not> isspace c \<and> c \<noteq> NUL" and "u \<noteq> []"
    and "length u < PACKET_MAX_PAYLOAD_LEN" and "userInput con = []" and "online os (client con)"
  shows "\<exists>p. res_fold (GetUserInput cs os) (map key_of (''/follow '' @ u) @ [10]) con =
      Inr (con\<lparr>drawn := drawn con @ [mvaddstr 3 3 ''follow''], client := emitted os [p] (client con)\<rparr>) \<and> ptype p = PACKET_FOLLOW_CMD \<and> packet_text p = Inr u"
proof -
  let ?s = "''/follow '' @ u"
  have "\<forall>c \<in> set ?s. typable c" using assms(2) by (auto simp: typable_def key_of_def)
  note t = type_line [OF assms(1) this assms(5), of os]
  have "NUL \<notin> set u" using assms(2) by auto
  from FollowUser_online [OF assms(6) this assms(4)] obtain p where
    p: "FollowUser os u (client con) = Inr (0, emitted os [p] (client con))" "packet_text p = Inr u"
      "ptype p = PACKET_FOLLOW_CMD" by blast
  have "ParseInput (''/'' @ ''follow'' @ concat (map (\<lambda>a. CHR '' '' # a) [u])) =
      Inr \<lparr>foundMatch = True, command = ''follow'', arguments = [u]\<rparr>"
    by (rule ParseInput_command) (use assms(2,3) in \<open>auto simp: isspace_def\<close>)
  moreover have "c_str ''follow'' = ''follow''" by (rule c_str_id) (simp add: NUL_def)
  ultimately have "HandleUserInput os ?s (con\<lparr>userInput := ?s\<rparr>) =
      Inr (con\<lparr>userInput := ?s, drawn := drawn con @ [mvaddstr 3 3 ''follow''], client := emitted os [p] (client con)\<rparr>)"
    using p(1) by (simp add: HandleUserInput_def)
  moreover have "con\<lparr>userInput := x, drawn := ds, client := c, userInput := []\<rparr> = con\<lparr>drawn := ds, client := c\<rparr>" for c x ds
    using assms(5) by (cases con) simp
  ultimately show ?thesis using t p(2,3) by (intro exI [of _ p]) simp
qed

text \<open>
  C23.  Drawing is safe: after any keys and any incoming messages, \<open>DrawMessages\<close> reads no message
  out of range and no message without a time.  Every line of text it draws is a line of a message,
  in column 3, and lies between row 3 and the row above the input frame.  The only other text is
  the time of a message, in column 30, never below that row, and above row 3 by at most the number
  of lines of the message (so that it can leave the frame at the top).
\<close>

theorem DrawMessages_safe:
  assumes "reachable console_init console_step con"
  shows "\<exists>ds. DrawMessages cs con = Inr ds \<and>
    (\<forall>d \<in> set ds. (\<exists>p. d = attron p \<or> d = attroff p) \<or>
      (\<exists>y l m. d = mvaddstr y 3 (c_str l) \<and> m \<in> set (messages con) \<and> l \<in> set (splitString (cm_body m) @ [[]]) \<and>
         3 \<le> y \<and> y \<le> LINES cs - 4) \<or>
      (\<exists>y m now. d = mvaddstr y 30 (ctime cs now) \<and> m \<in> set (messages con) \<and> cm_timestamp m = Some now \<and>
         3 - int (length (splitString (cm_body m))) \<le> y \<and> y \<le> LINES cs - 4))"
proof -
  obtain ds where ds: "DrawMessages cs con = Inr ds" "\<forall>d \<in> set ds. row_ok cs (messages con) 3 (LINES cs - 4) d"
    using DrawMessages_ok [OF screen.reachable_inv [OF assms]] by blast
  have "(\<exists>p. d = attron p \<or> d = attroff p) \<or>
      (\<exists>y l m. d = mvaddstr y 3 (c_str l) \<and> m \<in> set (messages con) \<and> l \<in> set (splitString (cm_body m) @ [[]]) \<and>
         3 \<le> y \<and> y \<le> LINES cs - 4) \<or>
      (\<exists>y m now. d = mvaddstr y 30 (ctime cs now) \<and> m \<in> set (messages con) \<and> cm_timestamp m = Some now \<and>
         3 - int (length (splitString (cm_body m))) \<le> y \<and> y \<le> LINES cs - 4)"
    if "row_ok cs (messages con) 3 (LINES cs - 4) d" for d
    using that by (cases d) auto
  with ds show ?thesis by blast
qed

theorem DrawMessages_safe_witness:
  "\<exists>ds. DrawMessages example_curses (IncomingMessageHandler 0 ''ho'' Error
      (IncomingMessageHandler 0 ''hi'' Info (Console_Start (Console_new example_cl)))) = Inr ds \<and>
    mvaddstr 19 3 ''ho'' \<in> set ds \<and> (\<forall>y t. mvaddstr y 3 t \<in> set ds \<longrightarrow> 3 \<le> y \<and> y \<le> 20)"
proof -
  let ?start = "Console_Start (Console_new example_cl)"
  let ?con = "IncomingMessageHandler 0 ''ho'' Error (IncomingMessageHandler 0 ''hi'' Info ?start)"
  have "reachable console_init console_step ?start"
    by (rule reach_init) (auto simp: console_init_def)
  then have "reachable console_init console_step (IncomingMessageHandler 0 ''hi'' Info ?start)"
    by (rule reach_step) (rule console_step.incoming)
  then have r: "reachable console_init console_step ?con" by (rule reach_step) (rule console_step.incoming)
  have lines: "LINES example_curses = 24" by (simp add: example_curses_def)
  obtain ds where ds: "DrawMessages example_curses ?con = Inr ds"
    "\<forall>y t. mvaddstr y 3 t \<in> set ds \<longrightarrow> 3 \<le> y \<and> y \<le> 20"
    using DrawMessages_safe [OF r, of example_curses] unfolding lines by fastforce
  have "splitString ''ho'' = [''ho'']" "c_str ''ho'' = ''ho''"
    by (simp_all add: splitString_def getlines_last c_str_id NUL_def)
  then have "mvaddstr 19 3 ''ho'' \<in> set ds"
    using ds(1) by (auto simp: DrawMessages_def IncomingMessageHandler_def push_message_def message_defs Console_Start_def
        Console_new_def example_curses_def Let_def styled_def res_simps)
  with ds show ?thesis by blast
qed

text \<open>
  The oldest message is never shown: what \<open>DrawMessages\<close> draws does not depend on the first
  message of the list, at any cursor position; a single message is not drawn at all.
\<close>

lemma first_message_hidden:
  "DrawMessages cs (con\<lparr>messages := m # ms\<rparr>) = DrawMessages cs (con\<lparr>messages := m' # ms\<rparr>) \<and>
   DrawMessages cs (con\<lparr>messages := [m], messageCursor := 0\<rparr>) = Inr []"
  using draw_loop_first [of "m # ms" "m' # ms" cs] by (simp add: DrawMessages_def Let_def)

end
