(* ===== verification/Console_Session.thy ===== *)
theory Console_Session
  imports Console
begin

text \<open>
  The client program with its console (\<open>source/client/main.cpp\<close>, \<open>ConsoleInterface::Init\<close>,
  \<open>Start\<close> and \<open>MainLoop\<close>): from the command line to the exit status.  The main loop is a
  function of what happens in its rounds: the messages that the listening thread has handed over
  before the round, and the key that \<open>getch\<close> returns in it.  A loop that is still running when the
  list ends waits for a key; its value is then \<open>None\<close>.
\<close>

section \<open>The program\<close>

datatype terminal = initscr | raw | noecho | keypad bool | start_color | init_pair int string string
  | screen "draw list" | endwin

definition Console_Init :: "terminal list" where
  "Console_Init = [initscr, raw, noecho, keypad True, start_color, init_pair 1 ''RED'' ''BLACK'',
     init_pair 2 ''BLUE'' ''BLACK'', init_pair 3 ''CYAN'' ''WHITE'']"

record Round =
  r_curses :: Curses
  r_os :: Os
  r_arrived :: "(u64 \<times> string \<times> MessageType) list"
  r_key :: int

definition arrive :: "Round \<Rightarrow> Console \<Rightarrow> Console" where
  "arrive r con = fold (\<lambda>(now, s, ty). IncomingMessageHandler now s ty) (r_arrived r) con"

definition shown :: "terminal list \<Rightarrow> (terminal list \<times> Console) res \<Rightarrow> (terminal list \<times> Console) res" where
  "shown ts r = res_bind r (\<lambda>(ts', con). Inr (ts @ ts', con))"

fun MainLoop :: "Round list \<Rightarrow> Console \<Rightarrow> (terminal list \<times> Console) res option" where
  "MainLoop [] con = (if running con then None else Some (Inr ([endwin], con)))"
| "MainLoop (r # rs) con =
     (if running con then
        (case MainLoop_round (r_curses r) (r_os r) (r_key r) (arrive r con) of
           Inl e \<Rightarrow> Some (Inl e)
         | Inr (ds, con') \<Rightarrow> map_option (shown [screen ds]) (MainLoop rs con'))
      else Some (Inr ([endwin], con)))"

definition Start_run :: "Round list \<Rightarrow> Console \<Rightarrow> (terminal list \<times> Console) res option" where
  "Start_run rs con = map_option (shown Console_Init) (MainLoop rs (Console_Start con))"

text \<open>
  \<open>main\<close> with three arguments: \<open>d\<close> is what \<open>socket()\<close> returns, \<open>os\<close> and \<open>os'\<close> the system when the
  client connects and when it leaves.  The result is the exit status, the calls to the terminal and
  the console with its client.
\<close>

definition console_main ::
  "Os \<Rightarrow> int \<Rightarrow> string \<Rightarrow> string \<Rightarrow> string \<Rightarrow> Round list \<Rightarrow> Os \<Rightarrow> (int \<times> terminal list \<times> Console) res option" where
  "console_main os d profile sAddress portArg rs os' =
     (case res_bind (atoi portArg) (\<lambda>sPort.
             let con = Console_new (Client_new profile sAddress sPort) in
             res_bind (Connect os d (client con)) (\<lambda>(r, c). Inr (con\<lparr>client := c\<rparr>))) of
        Inl e \<Rightarrow> Some (Inl e)
      | Inr con \<Rightarrow>
          map_option (\<lambda>r. res_bind r (\<lambda>(ts, con').
            res_bind (Shutdown os' (client con')) (\<lambda>c. Inr (0, ts @ [endwin], con'\<lparr>client := c\<rparr>))))
            (Start_run rs con))"

section \<open>Rounds\<close>

text \<open>A console that is ready for the next key: it can be drawn and its client can send.\<close>

definition ready :: "Os \<Rightarrow> Console \<Rightarrow> bool" where
  "ready os con \<longleftrightarrow> running con \<and> console_ok con \<and> online os (client con)"

lemma incoming_frame [simp]:
  "client (IncomingMessageHandler now s ty con) = client con"
  "userInput (IncomingMessageHandler now s ty con) = userInput con"
  "running (IncomingMessageHandler now s ty con) = running con"
  by (cases ty; simp add: IncomingMessageHandler_def push_message_def)+

lemma fold_frame: "(\<And>x c. g (f x c) = g c) \<Longrightarrow> g (fold f xs c) = g c"
  by (induction xs arbitrary: c) simp_all

lemma arrive_frame [simp]:
  "client (arrive r con) = client con" "userInput (arrive r con) = userInput con" "running (arrive r con) = running con"
  unfolding arrive_def by (rule fold_frame, clarsimp)+

lemma arrive_ok: "console_ok con \<Longrightarrow> console_ok (arrive r con)"
proof -
  have "console_ok c \<Longrightarrow> console_ok (fold (\<lambda>(now, s, ty). IncomingMessageHandler now s ty) xs c)" for xs c
    by (induction xs arbitrary: c) (auto intro: IncomingMessageHandler_ok)
  then show "console_ok con \<Longrightarrow> console_ok (arrive r con)" by (simp add: arrive_def)
qed

lemma shown_shown [simp]: "shown ts (shown ts' r) = shown (ts @ ts') r"
  by (cases r) (auto simp: shown_def split_def)

lemma shown_Nil [simp]: "shown [] = id"
  by (simp add: fun_eq_iff shown_def split_def) (metis res_bind.simps sum.exhaust)

lemma MainLoop_key:
  assumes "ready os con" and "GetUserInput (r_curses r) (r_os r) (r_key r) (arrive r con) = Inr con'"
  shows "\<exists>ds. MainLoop (r # rs) con = map_option (shown [screen ds]) (MainLoop rs con')"
proof -
  have ok: "console_ok (arrive r con)" "running con" using assms(1) arrive_ok by (auto simp: ready_def)
  obtain ms where ms: "DrawMessages (r_curses r) (arrive r con) = Inr ms" using DrawMessages_ok [OF ok(1)] by blast
  obtain st where st: "DrawStatus (arrive r con) = Inr st"
    using assms(1) by (cases "IsConnected (client con)") (auto simp: DrawStatus_def ready_def online_def GetHostStr_def)
  show ?thesis using ok(2) ms st assms(2) by (auto simp: MainLoop_round_def)
qed

text \<open>What a user types: characters of a line, and enter.\<close>

definition typed :: "Curses \<Rightarrow> Os \<Rightarrow> string \<Rightarrow> Round list \<Rightarrow> bool" where
  "typed cs os s rs \<longleftrightarrow> map r_key rs = map key_of s @ [10] \<and> (\<forall>r \<in> set rs. r_curses r = cs \<and> r_os r = os)"

lemma ready_frame:
  "ready os con \<Longrightarrow> ready os (arrive r con)" "ready os con \<Longrightarrow> ready os (con\<lparr>userInput := s\<rparr>)"
  using arrive_ok by (auto simp: ready_def console_ok_def)

text \<open>The characters of a line end up on the input line, whatever arrives meanwhile.\<close>

lemma MainLoop_text:
  assumes "keys_ok cs" and "\<forall>c \<in> set s. typable c" and "ready os con"
    and "map r_key rs = map key_of s" and "\<forall>r \<in> set rs. r_curses r = cs \<and> r_os r = os"
  shows "\<exists>ts con'. MainLoop (rs @ rs') con = map_option (shown ts) (MainLoop rs' con') \<and> ready os con' \<and>
    userInput con' = userInput con @ s \<and> client con' = client con"
  using assms(2-)
proof (induction s arbitrary: rs con)
  case Nil
  then show ?case by (intro exI [of _ "[]"] exI [of _ con]) (simp add: id_def option.map_ident)
next
  case (Cons c s)
  have "map r_key rs = key_of c # map key_of s" using Cons.prems(3) by simp
  then obtain r rs1 where rs: "rs = r # rs1" "r_key r = key_of c" "map r_key rs1 = map key_of s" by (cases rs) auto
  let ?con = "(arrive r con)\<lparr>userInput := userInput con @ [c]\<rparr>"
  have "GetUserInput (r_curses r) (r_os r) (r_key r) (arrive r con) = Inr ?con"
    using type_char [OF assms(1), of c os "arrive r con"] Cons.prems(1,4) rs by simp
  from MainLoop_key [OF Cons.prems(2) this] obtain ds where
    ds: "MainLoop (r # rs1 @ rs') con = map_option (shown [screen ds]) (MainLoop (rs1 @ rs') ?con)" by blast
  have "ready os ?con" using Cons.prems(2) ready_frame by blast
  moreover have "\<forall>c \<in> set s. typable c" "\<forall>r \<in> set rs1. r_curses r = cs \<and> r_os r = os"
    using Cons.prems(1,4) rs(1) by simp_all
  ultimately obtain ts con' where con': "MainLoop (rs1 @ rs') ?con = map_option (shown ts) (MainLoop rs' con')"
    "ready os con'" "userInput con' = userInput ?con @ s" "client con' = client ?con"
    using Cons.IH [OF _ _ rs(3)] by blast
  have "MainLoop (rs @ rs') con = map_option (shown ([screen ds] @ ts)) (MainLoop rs' con')"
    using ds con'(1) rs(1) by (simp add: option.map_comp comp_def)
  with con'(2-4) show ?case by (intro exI [of _ "[screen ds] @ ts"] exI [of _ con']) simp
qed

lemma MainLoop_enter:
  assumes "keys_ok cs" and "\<forall>c \<in> set s. typable c" and "ready os con" and "userInput con = []" and "typed cs os s rs"
  obtains con1 where "ready os con1" "userInput con1 = s" "client con1 = client con"
    "\<And>con2. HandleUserInput os s con1 = Inr con2 \<Longrightarrow>
      \<exists>ts. MainLoop (rs @ rs') con = map_option (shown ts) (MainLoop rs' (con2\<lparr>userInput := []\<rparr>))"
proof -
  have "map r_key rs = map key_of s @ [10]" using assms(5) by (simp add: typed_def)
  then obtain rs1 rs2 where "rs = rs1 @ rs2" "map r_key rs1 = map key_of s" "map r_key rs2 = [10]"
    by (metis map_eq_append_conv)
  moreover then obtain r where "rs2 = [r]" "r_key r = 10" by (cases rs2) auto
  ultimately have rs: "rs = rs1 @ [r]" "map r_key rs1 = map key_of s" "r_key r = 10" by simp_all
  have at: "\<forall>r \<in> set rs. r_curses r = cs \<and> r_os r = os" using assms(5) by (simp add: typed_def)
  then have at1: "\<forall>r \<in> set rs1. r_curses r = cs \<and> r_os r = os" by (simp add: rs(1))
  obtain ts con1 where t: "MainLoop (rs1 @ r # rs') con = map_option (shown ts) (MainLoop (r # rs') con1)" "ready os con1"
    "userInput con1 = [] @ s" "client con1 = client con"
    using MainLoop_text [OF assms(1-3) rs(2) at1, of "r # rs'"] unfolding assms(4) by blast
  have "\<exists>ts. MainLoop (rs @ rs') con = map_option (shown ts) (MainLoop rs' (con2\<lparr>userInput := []\<rparr>))"
    if h: "HandleUserInput os s (arrive r con1) = Inr con2" for con2
  proof -
    have "GetUserInput cs os 10 (arrive r con1) = Inr (con2\<lparr>userInput := []\<rparr>)"
      using assms(1) h t(3) by (auto simp: GetUserInput_def keys_ok_def)
    then obtain ds where "MainLoop (r # rs') con1 = map_option (shown [screen ds]) (MainLoop rs' (con2\<lparr>userInput := []\<rparr>))"
      using MainLoop_key [OF t(2), of r "con2\<lparr>userInput := []\<rparr>" rs'] at rs(1,3) by auto
    then show ?thesis
      using t(1) rs(1) by (intro exI [of _ "ts @ [screen ds]"]) (simp add: option.map_comp comp_def)
  qed
  then show ?thesis using that [of "arrive r con1"] t(2-4) ready_frame(1) by simp
qed

lemma MainLoop_post:
  assumes "keys_ok cs" and "\<forall>c \<in> set s. typable c \<and> c \<noteq> NUL" and "\<not> is_command s" and "length s \<le> 128"
    and "ready os con" and "userInput con = []" and "typed cs os s rs"
  shows "\<exists>ts con' p. MainLoop (rs @ rs') con = map_option (shown ts) (MainLoop rs' con') \<and> ready os con' \<and>
    userInput con' = [] \<and> client con' = emitted os [p] (client con) \<and> ptype p = PACKET_SEND_CMD \<and>
    packet_text p = Inr s \<and> seqn p = lastSentSeqn (client con) + 2"
proof -
  have ok: "\<forall>c \<in> set s. typable c" "NUL \<notin> set s" using assms(2) by auto
  obtain con1 where con1: "ready os con1" "userInput con1 = s" "client con1 = client con"
    and enter: "\<And>con2. HandleUserInput os s con1 = Inr con2 \<Longrightarrow>
      \<exists>ts. MainLoop (rs @ rs') con = map_option (shown ts) (MainLoop rs' (con2\<lparr>userInput := []\<rparr>))"
    by (rule MainLoop_enter [OF assms(1) ok(1) assms(5-7), of rs']) blast
  have on: "online os (client con)" using assms(5) by (simp add: ready_def)
  obtain p where p: "Post os s (client con) = Inr (0, emitted os [p] (client con))" "packet_text p = Inr s"
    "ptype p = PACKET_SEND_CMD" "seqn p = lastSentSeqn (client con) + 2"
    using Post_online [OF on ok(2) assms(4)] by blast
  let ?con2 = "con1\<lparr>client := emitted os [p] (client con)\<rparr>"
  obtain r where "ParseInput s = Inr r" "\<not> foundMatch r" using ParseInput_total [of s] assms(3) by auto
  then have "HandleUserInput os s con1 = Inr ?con2" using p(1) con1 by (simp add: HandleUserInput_def)
  from enter [OF this] obtain ts where
    "MainLoop (rs @ rs') con = map_option (shown ts) (MainLoop rs' (?con2\<lparr>userInput := []\<rparr>))" by blast
  moreover have "ready os (?con2\<lparr>userInput := []\<rparr>)" using con1(1) on by (simp add: ready_def console_ok_def)
  ultimately show ?thesis using p(2-4) by fastforce
qed

lemma MainLoop_exit:
  assumes "keys_ok cs" and "ready os con" and "userInput con = []" and "typed cs os ''/exit'' rs"
  shows "\<exists>ts con'. MainLoop (rs @ rs') con = Some (Inr (ts @ [endwin], con')) \<and> client con' = client con"
proof -
  have t: "\<forall>c \<in> set ''/exit''. typable c" by (simp add: typable_def key_of_def)
  obtain con1 where con1: "ready os con1" "client con1 = client con"
    and enter: "\<And>con2. HandleUserInput os ''/exit'' con1 = Inr con2 \<Longrightarrow>
      \<exists>ts. MainLoop (rs @ rs') con = map_option (shown ts) (MainLoop rs' (con2\<lparr>userInput := []\<rparr>))"
    by (rule MainLoop_enter [OF assms(1) t assms(2-4), of rs']) blast
  have "ParseInput (''/'' @ ''exit'' @ concat (map (\<lambda>a. CHR '' '' # a) [])) =
      Inr \<lparr>foundMatch = True, command = ''exit'', arguments = []\<rparr>"
    by (rule ParseInput_command) (simp_all add: isspace_def)
  then have "HandleUserInput os ''/exit'' con1 =
      Inr (con1\<lparr>drawn := drawn con1 @ [mvaddstr 3 3 (c_str ''exit'')], running := False\<rparr>)"
    by (simp add: HandleUserInput_def Console_Stop_def)
  from enter [OF this] obtain ts con2 where
    m: "MainLoop (rs @ rs') con = map_option (shown ts) (MainLoop rs' con2)" "\<not> running con2" "client con2 = client con1"
    by auto
  have "MainLoop rs' con2 = Some (Inr ([endwin], con2))" using m(2) by (cases rs') simp_all
  then show ?thesis using m con1(2) by (simp add: shown_def)
qed

section \<open>A session\<close>

definition line_ok :: "string \<Rightarrow> bool" where
  "line_ok l \<longleftrightarrow> length l \<le> 128 \<and> \<not> is_command l \<and> (\<forall>c \<in> set l. typable c \<and> c \<noteq> NUL)"

lemma upt_Suc_map: "[0..<Suc n] = 0 # map Suc [0..<n]"
  by (simp add: map_Suc_upt upt_conv_Cons)

lemma MainLoop_session:
  assumes "keys_ok cs" and "\<forall>l \<in> set ls. line_ok l" and "ready os con" and "userInput con = []"
    and "list_all2 (typed cs os) (ls @ [''/exit'']) rss"
  shows "\<exists>ts con' ps. MainLoop (concat rss) con = Some (Inr (ts @ [endwin], con')) \<and>
    client con' = emitted os ps (client con) \<and> map ptype ps = replicate (length ls) PACKET_SEND_CMD \<and>
    map packet_text ps = map Inr ls \<and>
    map seqn ps = map (\<lambda>i. lastSentSeqn (client con) + 2 + of_nat i) [0..<length ls]"
  using assms(2-)
proof (induction ls arbitrary: con rss)
  case Nil
  then obtain rs where rs: "rss = [rs]" "typed cs os ''/exit'' rs" by (auto simp: list_all2_Cons1)
  obtain ts con' where "MainLoop (rs @ []) con = Some (Inr (ts @ [endwin], con'))" "client con' = client con"
    using MainLoop_exit [OF assms(1) Nil.prems(2,3) rs(2), of "[]"] by blast
  then show ?case using rs(1) by (intro exI [of _ ts] exI [of _ con'] exI [of _ "[]"]) simp
next
  case (Cons l ls)
  then obtain rs rss' where rs: "rss = rs # rss'" "typed cs os l rs" "list_all2 (typed cs os) (ls @ [''/exit'']) rss'"
    by (auto simp: list_all2_Cons1)
  have ok: "\<forall>c \<in> set l. typable c \<and> c \<noteq> NUL" "\<not> is_command l" "length l \<le> 128" "\<forall>l \<in> set ls. line_ok l"
    using Cons.prems(1) by (simp_all add: line_ok_def)
  obtain ts con1 p where 1: "MainLoop (rs @ concat rss') con = map_option (shown ts) (MainLoop (concat rss') con1)"
    "ready os con1" "userInput con1 = []" "client con1 = emitted os [p] (client con)" "ptype p = PACKET_SEND_CMD"
    "packet_text p = Inr l" "seqn p = lastSentSeqn (client con) + 2"
    using MainLoop_post [OF assms(1) ok(1-3) Cons.prems(2,3) rs(2), of "concat rss'"] by blast
  obtain ts' con' ps where 2: "MainLoop (concat rss') con1 = Some (Inr (ts' @ [endwin], con'))"
    "client con' = emitted os ps (client con1)" "map ptype ps = replicate (length ls) PACKET_SEND_CMD"
    "map packet_text ps = map Inr ls"
    "map seqn ps = map (\<lambda>i. lastSentSeqn (client con1) + 2 + of_nat i) [0..<length ls]"
    using Cons.IH [OF ok(4) 1(2,3) rs(3)] by blast
  have "MainLoop (concat rss) con = Some (Inr ((ts @ ts') @ [endwin], con'))"
    using 1(1) 2(1) rs(1) by (simp add: shown_def)
  moreover have "client con' = emitted os (p # ps) (client con)" using 1(4) 2(2) by simp
  moreover have "map seqn (p # ps) = map (\<lambda>i. lastSentSeqn (client con) + 2 + of_nat i) [0..<length (l # ls)]"
    using 1(4,7) 2(5) by (simp add: upt_Suc_map algebra_simps del: upt_Suc)
  ultimately show ?case using 1(5,6) 2(3,4) by (intro exI [of _ "ts @ ts'"] exI [of _ con'] exI [of _ "p # ps"]) simp
qed

lemma Connect_sends:
  assumes "0 \<le> d" and "online os (c\<lparr>cl_socketDescr := Some d\<rparr>)" and "NUL \<notin> set (profileHandle c)"
    and "length (profileHandle c) < PACKET_MAX_PAYLOAD_LEN"
  shows "\<exists>p. Connect os d c = Inr (0, (emitted os [p] (c\<lparr>cl_socketDescr := Some d\<rparr>))\<lparr>threads := True\<rparr>) \<and>
    ptype p = PACKET_CONNECT_CMD \<and> packet_text p = Inr (profileHandle c) \<and> seqn p = lastSentSeqn c + 2"
proof -
  obtain p where p: "MakeConnectCommand (os_time os) (lastSentSeqn c + 1) (profileHandle c) = Inr p"
    "packet_text p = Inr (profileHandle c)" "ptype p = PACKET_CONNECT_CMD" "seqn p = lastSentSeqn c + 1 + 1"
    using text_command_ok [OF assms(3,4) nameable_types(1), of "os_time os" "lastSentSeqn c + 1 + 1" "length (profileHandle c)"]
    by (auto simp: MakeConnectCommand_def)
  then show ?thesis
    using send_next_online [OF assms(2), of "\<lambda>n. MakeConnectCommand (os_time os) n (profileHandle c)" p] assms(1)
    by (intro exI [of _ p]) (simp add: Connect_def Let_def)
qed

lemma Shutdown_sends:
  assumes "online os c" and "NUL \<notin> set (profileHandle c)" and "length (profileHandle c) < PACKET_MAX_PAYLOAD_LEN"
  shows "\<exists>p. Shutdown os c = Inr ((emitted os [p] c)\<lparr>cl_closed := True, cl_isListening := False\<rparr>) \<and>
    ptype p = PACKET_DISCONNECT_CMD \<and> packet_text p = Inr (profileHandle c) \<and> seqn p = lastSentSeqn c + 2"
proof -
  obtain p where p: "MakeDisconnectCommand (os_time os) (lastSentSeqn c + 1) (profileHandle c) = Inr p"
    "packet_text p = Inr (profileHandle c)" "ptype p = PACKET_DISCONNECT_CMD" "seqn p = lastSentSeqn c + 1 + 1"
    using text_command_ok [OF assms(2,3) nameable_commands(1), of "os_time os" "lastSentSeqn c + 1 + 1" "length (profileHandle c)"]
    by (auto simp: MakeDisconnectCommand_def)
  then show ?thesis
    using send_next_online [OF assms(1), of "\<lambda>n. MakeDisconnectCommand (os_time os) n (profileHandle c)" p]
    by (intro exI [of _ p]) (simp add: Shutdown_def)
qed

text \<open>A session of two lines, for concrete runs.\<close>

definition example_rounds :: "string \<Rightarrow> Round list" where
  "example_rounds l = map (\<lambda>k. \<lparr>r_curses = example_curses, r_os = example_os, r_arrived = [(0, ''hello'', Info)], r_key = k\<rparr>)
     (map key_of l @ [10])"

section \<open>Properties\<close>

text \<open>
  C22.  A session at the console: started with a name, an address and a port, on an open network,
  a user types some lines of at most 128 characters and then \<open>/exit\<close>, while messages arrive and are
  drawn.  The program returns 0 after leaving the screen, and what it has sent to the server is
  exactly the CONNECT for the trimmed name, one SEND for each line with its text, and the
  DISCONNECT, with consecutive sequence numbers; the socket is closed.
\<close>

theorem console_session:
  assumes "keys_ok cs" and "\<forall>l \<in> set ls. line_ok l" and "list_all2 (typed cs os) (ls @ [''/exit'']) rss"
    and "atoi portArg = Inr prt" and "0 \<le> d" and "u = trim_copy profile" and "NUL \<notin> set u"
    and "length u < PACKET_MAX_PAYLOAD_LEN" and "server = recipient_of os \<lparr>address = sAddress, port = prt\<rparr>"
    and "\<forall>p. 0 \<le> os_sendto os server p"
  shows "\<exists>ts con ps. console_main os d profile sAddress portArg (concat rss) os =
      Some (Inr (0, Console_Init @ ts @ [endwin, endwin], con)) \<and>
    cl_sent (client con) = map (\<lambda>p. (server, p)) ps \<and> cl_closed (client con) \<and>
    map ptype ps = PACKET_CONNECT_CMD # replicate (length ls) PACKET_SEND_CMD @ [PACKET_DISCONNECT_CMD] \<and>
    map packet_text ps = map Inr (u # ls @ [u]) \<and>
    map seqn ps = map (\<lambda>i. 2 + of_nat i) [0..<length ls + 2]"
proof -
  let ?con = "Console_new (Client_new profile sAddress prt)"
  let ?c0 = "client ?con" and ?c1 = "(client ?con)\<lparr>cl_socketDescr := Some d\<rparr>"
  have c0: "profileHandle ?c0 = u" "lastSentSeqn ?c0 = 0" "cl_sent ?c0 = []" "server_sockaddr os ?c1 = server"
    using assms(6,9) by (simp_all add: Console_new_def Client_new_def SetMessageHandlerFunc_def server_sockaddr_def)
  have on: "online os ?c1"
    using assms(5,10) c0(4) by (simp add: online_def Console_new_def Client_new_def SetMessageHandlerFunc_def)
  obtain p where p: "Connect os d ?c0 = Inr (0, (emitted os [p] ?c1)\<lparr>threads := True\<rparr>)" "ptype p = PACKET_CONNECT_CMD"
    "packet_text p = Inr u" "seqn p = 0 + 2"
    using Connect_sends [OF assms(5) on] assms(7,8) unfolding c0(1,2) by blast
  let ?con1 = "Console_Start (?con\<lparr>client := (emitted os [p] ?c1)\<lparr>threads := True\<rparr>\<rparr>)"
  have "ready os ?con1" "userInput ?con1 = []"
    using on by (simp_all add: ready_def Console_Start_def Console_new_def console_ok_def online_def emitted_def server_sockaddr_def)
  from MainLoop_session [OF assms(1,2) this assms(3)] obtain ts con' ps where
    m: "MainLoop (concat rss) ?con1 = Some (Inr (ts @ [endwin], con'))"
    and c: "client con' = emitted os ps (client ?con1)"
    and ps: "map ptype ps = replicate (length ls) PACKET_SEND_CMD" "map packet_text ps = map Inr ls"
      "map seqn ps = map (\<lambda>i. lastSentSeqn (client ?con1) + 2 + of_nat i) [0..<length ls]" by blast
  have len: "length ps = length ls" using arg_cong [OF ps(1), of length] by simp
  have c2: "online os (client con')" "profileHandle (client con') = u" "lastSentSeqn (client con') = 1 + of_nat (length ls)"
    "server_sockaddr os (client con') = server" "cl_sent (client con') = map (\<lambda>p. (server, p)) (p # ps)"
    using on c0 len by (simp_all add: c Console_Start_def online_def emitted_def server_sockaddr_def)
  obtain q where q: "Shutdown os (client con') = Inr ((emitted os [q] (client con'))\<lparr>cl_closed := True, cl_isListening := False\<rparr>)"
    "ptype q = PACKET_DISCONNECT_CMD" "packet_text q = Inr u" "seqn q = 1 + of_nat (length ls) + 2"
    using Shutdown_sends [OF c2(1)] assms(7,8) unfolding c2(2,3) by blast
  let ?con' = "con'\<lparr>client := (emitted os [q] (client con'))\<lparr>cl_closed := True, cl_isListening := False\<rparr>\<rparr>"
  have "console_main os d profile sAddress portArg (concat rss) os = Some (Inr (0, Console_Init @ ts @ [endwin, endwin], ?con'))"
    using m p(1) q(1) assms(4) by (simp add: console_main_def Start_run_def shown_def Let_def)
  moreover have "cl_sent (client ?con') = map (\<lambda>p. (server, p)) (p # ps @ [q])"
    using c2(4,5) by (simp add: emitted_def)
  moreover have "map seqn (p # ps @ [q]) = map (\<lambda>i. 2 + of_nat i) [0..<length ls + 2]"
    using p(4) q(4) ps(3) c0(2)
    by (simp add: Console_Start_def upt_Suc_map [of "Suc (length ls)"] algebra_simps del: upt_Suc) (simp add: upt_Suc)
  ultimately show ?thesis using p(2,3) ps(1,2) q(2,3)
    by (intro exI [of _ ts] exI [of _ ?con'] exI [of _ "p # ps @ [q]"]) simp
qed

theorem console_session_witness:
  "\<exists>ts con ps. console_main example_os 5 '' ana '' ''127.0.0.1'' ''4000''
      (concat [example_rounds ''hi'', example_rounds ''/exit'']) example_os =
      Some (Inr (0, Console_Init @ ts @ [endwin, endwin], con)) \<and>
    cl_closed (client con) \<and> map packet_text ps = map Inr (''ana'' # [''hi''] @ [''ana'']) \<and>
    cl_sent (client con) = map (\<lambda>p. (recipient_of example_os \<lparr>address = ''127.0.0.1'', port = 4000\<rparr>, p)) ps"
proof -
  have typed: "typed example_curses example_os l (example_rounds l)" for l
    by (auto simp: typed_def example_rounds_def)
  have "words ''hi'' = [''hi'']" by (rule words_single) (simp_all add: isspace_def)
  then have lines: "\<forall>l \<in> set [''hi'']. line_ok l"
    by (simp add: line_ok_def is_command_def ParseCommand_def typable_def key_of_def NUL_def)
  have rounds: "list_all2 (typed example_curses example_os) ([''hi''] @ [''/exit'']) [example_rounds ''hi'', example_rounds ''/exit'']"
    using typed by simp
  have name: "''ana'' = trim_copy '' ana ''" "NUL \<notin> set ''ana''" "length ''ana'' < PACKET_MAX_PAYLOAD_LEN"
    by (simp_all add: trim_copy_def trim_def ltrim_def rtrim_def isspace_def NUL_def)
  have prt: "atoi ''4000'' = Inr 4000" "0 \<le> (5 :: int)" by code_simp simp
  have net: "\<forall>p. 0 \<le> os_sendto example_os (recipient_of example_os \<lparr>address = ''127.0.0.1'', port = 4000\<rparr>) p"
    by (simp add: example_os_def)
  from console_session [OF example_keys lines rounds prt name refl net] show ?thesis by blast
qed

end
