(* ===== verification/Gui.thy ===== *)
theory Gui
  imports Client
begin

text \<open>
  The graphical interface (\<open>source/client/gui/gui.hpp\<close>, \<open>gui.cpp\<close>): construction, \<open>init\<close>, \<open>render\<close>,
  \<open>stop\<close> and \<open>run\<close>.  The window library GLFW, OpenGL and Dear ImGui are third-party code: a call to
  them is a value of \<open>gui_call\<close>, with its result where the program uses it, and the interface keeps
  the sequence of its calls.  What a frame's widgets return is a parameter: the contents of the
  text fields after the frame as functions of their contents before it, and which buttons were
  pressed.  Accessors without effect (\<open>GetIO\<close>, \<open>GetStyle\<close>, \<open>GetTextLineHeight\<close>, \<open>GetFontSize\<close>,
  \<open>GetDrawData\<close>), colours and sizes given in floating point are left out, and of the three variants
  that the preprocessor can select for \<open>init\<close> the one for Linux is modelled.  Texts with accents
  are the bytes of the source's UTF-8 literals.

  What the libraries do with a call is not modelled.  In particular \<open>TextColored\<close> takes its text as
  a format string: the call is recorded with the array \<open>errorMessage\<close> that the program passes, and
  how the library formats it is outside of the model.  \<open>render\<close>, \<open>init\<close> and \<open>run\<close> have no \<open>return\<close> at
  their end; the values of \<open>render\<close> and \<open>init\<close> are not used, the one of \<open>run\<close> is the exit status.
\<close>

section \<open>Library calls\<close>

type_synonym window = "int option"

datatype config_flag = NavEnableKeyboard | DockingEnable | ViewportsEnable

datatype (plugins only: code size) gui_call =
    glfwSetErrorCallback | glfwInit bool | glfwWindowHint string int
  | glfwCreateWindow int int string window | glfwMakeContextCurrent window | glfwSwapInterval int
  | IMGUI_CHECKVERSION | ImGui_CreateContext | ImGui_ConfigFlags config_flag | ImGui_StyleColorsDark
  | ImGui_SquareWindows | ImGui_ImplGlfw_InitForOpenGL window bool | ImGui_ImplOpenGL3_Init string
  | ImGui_ImplOpenGL3_Shutdown | ImGui_ImplGlfw_Shutdown | ImGui_DestroyContext
  | glfwDestroyWindow window | glfwTerminate
  | glfwPollEvents | ImGui_ImplOpenGL3_NewFrame | ImGui_ImplGlfw_NewFrame | ImGui_NewFrame
  | ImGui_SetNextWindowSize int int | ImGui_Begin string | ImGui_End
  | ImGui_Text string | ImGui_TextColored string | ImGui_TextDisabled string | ImGui_TextUnformatted string
  | ImGui_InputText string nat | ImGui_InputTextMultiline string nat | ImGui_InputInt string | ImGui_Button string
  | ImGui_SameLine | ImGui_IsItemHovered bool | ImGui_BeginTooltip | ImGui_EndTooltip
  | ImGui_PushTextWrapPos | ImGui_PopTextWrapPos
  | ImGui_Render | glfwGetFramebufferSize window | glViewport int int | glClearColor | glClear
  | ImGui_ImplOpenGL3_RenderDrawData | glfwGetCurrentContext window | ImGui_UpdatePlatformWindows
  | ImGui_RenderPlatformWindowsDefault | glfwSwapBuffers window | glfwWindowShouldClose window

text \<open>What \<open>glfwInit\<close> and \<open>glfwCreateWindow\<close> return, and what happens in a frame.\<close>

record Toolkit =
  tk_init :: bool
  tk_window :: window

record Frame =
  f_username :: "string \<Rightarrow> string"
  f_ip :: "string \<Rightarrow> string"
  f_port :: "int \<Rightarrow> int"
  f_text :: "string \<Rightarrow> string"
  f_enter :: bool
  f_send :: bool
  f_hover_ip :: bool
  f_hover_port :: bool
  f_size :: "int \<times> int"
  f_context :: window

section \<open>The interface\<close>

text \<open>
  The members of the class, the static variables of \<open>render\<close> that the code reads, the flags of the
  library's configuration and the calls made so far.  No code writes \<open>errorMessage\<close>: the
  constructor's argument \<open>mem\<close> is what the memory held.
\<close>

record Gui =
  gui_client :: Client
  loggedIn :: bool
  gui_port :: int
  gui_text :: string
  gui_username :: string
  gui_ip :: string
  gui_window :: window
  errorMessage :: string
  io_flags :: "config_flag set"
  calls :: "gui_call list"

definition GUI_new :: "string \<Rightarrow> Client \<Rightarrow> Gui" where
  "GUI_new mem c = \<lparr>gui_client = c, loggedIn = False, gui_port = 5000, gui_text = [], gui_username = [], gui_ip = [], gui_window = None,
     errorMessage = mem, io_flags = {}, calls = []\<rparr>"

definition emit :: "gui_call list \<Rightarrow> Gui \<Rightarrow> Gui" where
  "emit cs g = g\<lparr>calls := calls g @ cs\<rparr>"

definition HelpMarker :: "string \<Rightarrow> bool \<Rightarrow> gui_call list" where
  "HelpMarker desc hovered =
     [ImGui_TextDisabled ''(?)'', ImGui_IsItemHovered hovered] @
     (if hovered
      then [ImGui_BeginTooltip, ImGui_PushTextWrapPos, ImGui_TextUnformatted desc, ImGui_PopTextWrapPos, ImGui_EndTooltip]
      else [])"

text \<open>\<open>init\<close> has no \<open>return\<close> after its last statement: the result is then \<open>None\<close>.\<close>

definition configure :: "config_flag \<Rightarrow> Gui \<Rightarrow> Gui" where
  "configure fl g = (emit [ImGui_ConfigFlags fl] g)\<lparr>io_flags := insert fl (io_flags g)\<rparr>"

definition gui_init :: "Toolkit \<Rightarrow> Gui \<Rightarrow> int option \<times> Gui" where
  "gui_init tk g =
     (let g1 = emit [glfwSetErrorCallback, glfwInit (tk_init tk)] g in
      if \<not> tk_init tk then (Some 1, g1)
      else
        (let g2 = (emit [glfwWindowHint ''GLFW_CONTEXT_VERSION_MAJOR'' 3, glfwWindowHint ''GLFW_CONTEXT_VERSION_MINOR'' 0,
                     glfwCreateWindow 1280 720 ''Piupiu'' (tk_window tk)] g1)\<lparr>gui_window := tk_window tk\<rparr> in
         if gui_window g2 = None then (Some 1, g2)
         else
           (let g3 = emit [glfwMakeContextCurrent (gui_window g2), glfwSwapInterval 1, IMGUI_CHECKVERSION, ImGui_CreateContext] g2;
                g4 = configure ViewportsEnable (configure DockingEnable (configure NavEnableKeyboard g3));
                g5 = emit ([ImGui_StyleColorsDark] @ (if ViewportsEnable \<in> io_flags g4 then [ImGui_SquareWindows] else [])) g4
            in (None, emit [ImGui_ImplGlfw_InitForOpenGL (gui_window g5) True, ImGui_ImplOpenGL3_Init ''#version 130''] g5))))"

definition gui_stop :: "Gui \<Rightarrow> int \<times> Gui" where
  "gui_stop g =
     (0, emit [ImGui_ImplOpenGL3_Shutdown, ImGui_ImplGlfw_Shutdown, ImGui_DestroyContext,
               glfwDestroyWindow (gui_window g), glfwTerminate] g)"

text \<open>The window of a user who is logged in.\<close>

definition feed_window :: "Os \<Rightarrow> Frame \<Rightarrow> Gui \<Rightarrow> Gui res" where
  "feed_window os fr g =
     (let text = f_text fr (gui_text g);
          g1 = emit [ImGui_SetNextWindowSize 800 600, ImGui_Begin ''Piupiu'', ImGui_Text (''Logado como @'' @ c_str (gui_username g)),
                 ImGui_Text ''Feed de mensagens'', ImGui_InputTextMultiline ''##source'' 16384, ImGui_SameLine,
                 ImGui_Button ''Enviar''] g
      in res_bind
           (if f_send fr
            then res_bind (Post os (c_str text) (gui_client g1)) (\<lambda>(r, c). Inr (g1\<lparr>gui_client := c, gui_text := []\<rparr>))
            else Inr (g1\<lparr>gui_text := text\<rparr>))
           (\<lambda>g2. Inr (emit [ImGui_End] g2)))"

text \<open>The login form; \<open>d\<close> is what \<open>socket()\<close> returns if the frame connects.\<close>

definition short_name_text :: string where
  "short_name_text = ''Nome de usu'' @ [CHR 0xC3, CHR 0xA1] @ ''rio muito curto''"

definition login_window :: "Os \<Rightarrow> int \<Rightarrow> Frame \<Rightarrow> Gui \<Rightarrow> Gui res" where
  "login_window os d fr g =
     res_bind (string_of_array (errorMessage g)) (\<lambda>message.
       (let g1 = (emit ([ImGui_SetNextWindowSize 800 600, ImGui_Begin ''Piupiu'',
                     ImGui_Text ([CHR 0xC3, CHR 0x81] @ ''rea de login''), ImGui_TextColored message,
                     ImGui_InputText (''Nome de usu'' @ [CHR 0xC3, CHR 0xA1] @ ''rio'') 128,
                     ImGui_InputText (''Endere'' @ [CHR 0xC3, CHR 0xA7] @ ''o IP'') 100, ImGui_SameLine] @
                   HelpMarker (''Endere'' @ [CHR 0xC3, CHR 0xA7] @ ''o do servidor'') (f_hover_ip fr) @
                   [ImGui_InputInt ''Porta'', ImGui_SameLine] @ HelpMarker ''Porta do servidor'' (f_hover_port fr) @
                   [ImGui_Button ''Entrar'']) g)
                 \<lparr>gui_port := f_port fr (gui_port g), gui_username := f_username fr (gui_username g), gui_ip := f_ip fr (gui_ip g)\<rparr>;
            username = c_str (gui_username g1); ip = c_str (gui_ip g1)
        in res_bind
             (if f_enter fr
              then (if length username > 4 \<and> gui_port g1 > 0 \<and> length ip > 4
                    then res_bind (Connect3 os d username ip (gui_port g1) (gui_client g1))
                           (\<lambda>(r, c). Inr (g1\<lparr>loggedIn := True, gui_client := c\<rparr>))
                    else Inr (g1\<lparr>gui_username := short_name_text\<rparr>))
              else Inr g1)
             (\<lambda>g2. Inr (emit [ImGui_End] g2))))"

text \<open>
  One frame.  The user name and the address are reset to fixed texts at the start of every frame,
  before the text fields are drawn.
\<close>

definition render :: "Os \<Rightarrow> int \<Rightarrow> Frame \<Rightarrow> Gui \<Rightarrow> Gui res" where
  "render os d fr g =
     (let g1 = (emit [glfwPollEvents, ImGui_ImplOpenGL3_NewFrame, ImGui_ImplGlfw_NewFrame, ImGui_NewFrame] g)
                 \<lparr>gui_username := ''fernando'', gui_ip := ''127.0.0.1''\<rparr>
      in res_bind
           (if loggedIn g1 then feed_window os fr g1 else login_window os d fr g1)
           (\<lambda>g2.
             let g3 = emit [ImGui_Render, glfwGetFramebufferSize (gui_window g2), glViewport (fst (f_size fr)) (snd (f_size fr)),
                        glClearColor, glClear, ImGui_ImplOpenGL3_RenderDrawData] g2;
                 g4 = (if ViewportsEnable \<in> io_flags g3
                       then emit [glfwGetCurrentContext (f_context fr), ImGui_UpdatePlatformWindows,
                              ImGui_RenderPlatformWindowsDefault, glfwMakeContextCurrent (f_context fr)] g3
                       else g3)
             in Inr (emit [glfwSwapBuffers (gui_window g4)] g4)))"

text \<open>
  The main loop, over the frames until the window is closed, and \<open>run\<close>, which ignores the result of
  \<open>init\<close> and has no \<open>return\<close>; \<open>main\<close> returns its value.
\<close>

fun gui_loop :: "(Os \<times> int \<times> Frame) list \<Rightarrow> Gui \<Rightarrow> Gui res" where
  "gui_loop [] g = Inr (emit [glfwWindowShouldClose (gui_window g)] g)"
| "gui_loop ((os, d, fr) # fs) g =
     res_bind (render os d fr (emit [glfwWindowShouldClose (gui_window g)] g)) (gui_loop fs)"

definition gui_run :: "Toolkit \<Rightarrow> (Os \<times> int \<times> Frame) list \<Rightarrow> Gui \<Rightarrow> (int option \<times> Gui) res" where
  "gui_run tk fs g = res_bind (gui_loop fs (snd (gui_init tk g))) (\<lambda>g1. Inr (None, snd (gui_stop g1)))"

definition gui_main :: "Toolkit \<Rightarrow> string \<Rightarrow> (Os \<times> int \<times> Frame) list \<Rightarrow> (int \<times> Gui) res" where
  "gui_main tk mem fs =
     res_bind (gui_run tk fs (GUI_new mem Client_default)) (\<lambda>(r, g).
       case r of None \<Rightarrow> Inl MissingReturn | Some n \<Rightarrow> Inr (n, g))"

section \<open>A frame\<close>

text \<open>A frame in which a name was typed and the login button pressed.\<close>

definition example_frame :: Frame where
  "example_frame = \<lparr>f_username = (\<lambda>_. ''mariana''), f_ip = (\<lambda>s. s), f_port = (\<lambda>p. p), f_text = (\<lambda>s. s),
     f_enter = True, f_send = False, f_hover_ip = True, f_hover_port = False, f_size = (1280, 720), f_context = Some 7\<rparr>"

section \<open>Properties\<close>

text \<open>
  C34.  Login: pressing the button with a name and an address of more than four characters and a
  positive port, on an open network, logs in and sends exactly one CONNECT packet with the name to
  that server; with a shorter name or address or another port nothing is sent and the form stays.
\<close>

theorem login_outcome:
  assumes "\<not> loggedIn g" and "f_enter fr" and "u = c_str (f_username fr ''fernando'')"
    and "ip = c_str (f_ip fr ''127.0.0.1'')" and "prt = f_port fr (gui_port g)"
    and "NUL \<in> set (errorMessage g)" and "0 \<le> d" and "\<not> cl_closed (gui_client g)" and "length u < PACKET_MAX_PAYLOAD_LEN"
    and "\<forall>p. 0 \<le> os_sendto os (recipient_of os \<lparr>address = ip, port = prt\<rparr>) p"
  shows "if 4 < length u \<and> 0 < prt \<and> 4 < length ip
    then \<exists>g' p. render os d fr g = Inr g' \<and> loggedIn g' \<and> profileHandle (gui_client g') = u \<and>
      cl_sent (gui_client g') = cl_sent (gui_client g) @ [(recipient_of os \<lparr>address = ip, port = prt\<rparr>, p)] \<and>
      ptype p = PACKET_CONNECT_CMD \<and> packet_text p = Inr u
    else \<exists>g'. render os d fr g = Inr g' \<and> \<not> loggedIn g' \<and> gui_client g' = gui_client g"
proof (cases "4 < length u \<and> 0 < prt \<and> 4 < length ip")
  case False
  then show ?thesis
    using assms(1-6) by (auto simp: render_def login_window_def string_of_array_def emit_def Let_def)
next
  case True
  let ?c = "(gui_client g)\<lparr>profileHandle := u, serverAddress := ip, serverPort := Some prt, cl_socketDescr := Some d\<rparr>"
  have on: "online os ?c" using assms(7,8,10) by (simp add: online_def server_sockaddr_def)
  have nf: "NUL \<notin> set u" using assms(3) by simp
  obtain p where p: "MakeConnectCommand (os_time os) (lastSentSeqn ?c + 1) u = Inr p" "packet_text p = Inr u"
    "ptype p = PACKET_CONNECT_CMD"
    using text_command_ok [OF nf assms(9) nameable_types(1), of "os_time os" "lastSentSeqn ?c + 1 + 1" "length u"]
    by (auto simp: MakeConnectCommand_def)
  have "Connect3 os d u ip prt (gui_client g) = Inr (0, (emitted os [p] ?c)\<lparr>threads := True\<rparr>)"
    using send_next_online [OF on, of "\<lambda>n. MakeConnectCommand (os_time os) n u" p] p(1) assms(7)
    by (simp add: Connect3_def Connect_def Let_def)
  then have "\<exists>g'. render os d fr g = Inr g' \<and> loggedIn g' \<and> gui_client g' = (emitted os [p] ?c)\<lparr>threads := True\<rparr>"
    using True assms(1-6) by (simp add: render_def login_window_def string_of_array_def emit_def Let_def)
  then show ?thesis using True p(2,3) by (auto simp: emitted_def server_sockaddr_def)
qed

theorem login_outcome_witness:
  "\<exists>g' p. render example_os 5 example_frame (GUI_new [NUL] Client_default) = Inr g' \<and> loggedIn g' \<and>
      profileHandle (gui_client g') = ''mariana'' \<and>
      cl_sent (gui_client g') = cl_sent (gui_client (GUI_new [NUL] Client_default)) @
        [(recipient_of example_os \<lparr>address = ''127.0.0.1'', port = 5000\<rparr>, p)] \<and>
      ptype p = PACKET_CONNECT_CMD \<and> packet_text p = Inr ''mariana''"
proof -
  have c: "''mariana'' = c_str (f_username example_frame ''fernando'')"
    "''127.0.0.1'' = c_str (f_ip example_frame ''127.0.0.1'')"
    by (simp_all add: c_str_id NUL_def example_frame_def)
  have pre: "\<not> loggedIn (GUI_new [NUL] Client_default)" "f_enter example_frame"
    "5000 = f_port example_frame (gui_port (GUI_new [NUL] Client_default))" "NUL \<in> set (errorMessage (GUI_new [NUL] Client_default))"
    "\<not> cl_closed (gui_client (GUI_new [NUL] Client_default))"
    by (simp_all add: GUI_new_def Client_default_def example_frame_def)
  have net: "\<forall>p. 0 \<le> os_sendto example_os (recipient_of example_os \<lparr>address = ''127.0.0.1'', port = 5000\<rparr>) p"
    by (simp add: example_os_def)
  have len: "length ''mariana'' < PACKET_MAX_PAYLOAD_LEN" by simp
  have cond: "(4 < length ''mariana'' \<and> 0 < (5000 :: int) \<and> 4 < length ''127.0.0.1'') = True" by simp
  have "0 \<le> (5 :: int)" by simp
  from login_outcome [OF pre(1,2) c pre(3,4) this pre(5) len net] show ?thesis by (simp only: cond if_True)
qed



text \<open>
  Posting from the form: pressing the button empties the text field in every case, also when
  the text has more than 128 characters and is therefore not sent: such a text is lost.
\<close>

lemma long_post_lost:
  assumes "loggedIn g" and "f_send fr" and "128 < length (c_str (f_text fr (gui_text g)))"
  shows "\<exists>g'. render os d fr g = Inr g' \<and> gui_text g' = [] \<and> gui_client g' = gui_client g"
  using assms by (simp add: render_def feed_window_def emit_def Let_def Post_def)

text \<open>
  A frame of a user who is logged in always greets the same name.
\<close>

lemma greeting_fixed:
  assumes "loggedIn g" and "render os d fr g = Inr g'"
  shows "ImGui_Text ''Logado como @fernando'' \<in> set (calls g')"
proof -
  have "c_str ''fernando'' = ''fernando''" by (rule c_str_id) (simp add: NUL_def)
  then have feed: "ImGui_Text ''Logado como @fernando'' \<in> set (calls g2)"
    if "feed_window os fr g1 = Inr g2" "gui_username g1 = ''fernando''" for g1 g2
    using that by (cases "f_send fr") (auto simp: feed_window_def emit_def Let_def res_bind_Inr_conv)
  let ?g = "(emit [glfwPollEvents, ImGui_ImplOpenGL3_NewFrame, ImGui_ImplGlfw_NewFrame, ImGui_NewFrame] g)
    \<lparr>gui_username := ''fernando'', gui_ip := ''127.0.0.1''\<rparr>"
  obtain g2 cs where "feed_window os fr ?g = Inr g2" "calls g' = calls g2 @ cs"
    using assms by (auto simp: render_def emit_def Let_def elim!: res_bind_InrE split: if_splits)
  then show ?thesis using feed [of ?g g2] by simp
qed

text \<open>
  The program that \<open>main\<close> starts without arguments has no defined exit status: \<open>run\<close> has no \<open>return\<close>.
\<close>

lemma gui_main_no_status: "\<exists>e. gui_main tk mem fs = Inl e"
  by (cases "gui_loop fs (snd (gui_init tk (GUI_new mem Client_default)))") (simp_all add: gui_main_def gui_run_def)

end
