(* ===== verification/Spec2Isabelle.thy ===== *)
theory Spec2Isabelle
  imports Server_Behaviour Network Feed Console_Session Gui
begin

text \<open>
  A verification development for piupiu, a small replicated message service over UDP.

  \<^bold>\<open>The program.\<close>  A server keeps profiles (a handle and its followers), which it stores in
  \<open>profiles.dat\<close>, and sessions (the at most two addresses a user is connected from).  Clients send
  fixed-size packets: CONNECT, DISCONNECT, FOLLOW, SEND and a request for information.  A post is
  queued as one notification per follower, and a worker thread sends the notifications to the
  followers' addresses.  Several servers run as one primary and three secondaries: the primary
  forwards every CONNECT, waits in a confirmation buffer for the answers of the secondaries and
  then accepts the client.  The client receives packets in one thread, orders notifications by
  sequence number in another, and shows them on a console or in a window.

  \<^bold>\<open>The theories\<close>, in the order of the calls, each with the files under \<open>src/source\<close> it models:

  \<^item> \<open>Prelude\<close>: widths of the integers, failures as values (\<open>cpp_error\<close>, \<open>res\<close>), loops that can
    fail (\<open>res_fold\<close>), transition systems (\<open>reachable\<close>, locale \<open>transition_invariant\<close>).
  \<^item> \<open>Cxx_Std\<close>: what the sources use of the standard library: C strings, \<open>getline\<close>, formatted
    input with its stream states, decimal numbers, \<open>std::map\<close> (locale \<open>ordered_map\<close>).
  \<^item> \<open>Packet\<close> (\<open>messaging/Packet\<close>): the packet with its widths and every constructor.
  \<^item> \<open>Wire\<close> (\<open>server/Socket\<close>): sockets over a parameter \<open>Os\<close> and the bytes of a packet.
  \<^item> \<open>Confirmation_Buffer\<close> (\<open>client/confirmation-buffer.hpp\<close>; locale \<open>quorum_buffer\<close>).
  \<^item> \<open>Sessions\<close> (\<open>server/Session\<close>, \<open>SessionManager\<close>; locale \<open>session_table\<close>).
  \<^item> \<open>Profiles\<close> and \<open>Profile_Store\<close> (\<open>server/Profile\<close>, \<open>ProfileManager\<close>; locale \<open>directory\<close>).
  \<^item> \<open>Replica\<close> (\<open>server/ReplicaManager\<close>): peers, broadcast, confirmations.
  \<^item> \<open>Server\<close> (\<open>server/server\<close>, \<open>PendingNotification\<close>, \<open>main\<close>), \<open>Server_Safety\<close> and
    \<open>Server_Behaviour\<close>: every case of \<open>MessageHandler\<close>, a round of each loop, the invariant of the
    whole state and what the operations do for users.
  \<^item> \<open>Resumption\<close>, \<open>Threads\<close> and \<open>Interleaving\<close>: threads as sequences of atomic pieces and a
    rely-guarantee rule for them (locale \<open>thread_system\<close>), the handlers and the worker in that form,
    and what survives every interleaving of them.
  \<^item> \<open>Cluster\<close> and \<open>Network\<close>: the primary and its secondaries together, first for one connection,
    then in every run over a network that loses, repeats and reorders datagrams.
  \<^item> \<open>Client\<close> (\<open>client/client\<close>, \<open>utils.hpp\<close>; locale \<open>std_sort\<close>), \<open>Console\<close> and
    \<open>Console_Session\<close> (\<open>client/console\<close>, \<open>client/main\<close>) and \<open>Gui\<close> (\<open>client/gui\<close>, with the calls to the window libraries in order).
  \<^item> \<open>Feed\<close>: runs of the server with its worker, and the way of a notification from the queue to
    the screen of a client.

  \<^bold>\<open>How code becomes definitions.\<close>  Objects behind pointers live in heaps that are lists, and a
  pointer is an index; the heaps only grow, as the program never frees them while it runs.  A
  function that changes state takes and returns the record of its class.  Undefined behaviour and
  uncaught exceptions are values of \<open>cpp_error\<close>: a write past an array, the use of an
  uninitialised value or of the result of a function that ran off its end, an index out of range,
  an iterator into a vector that has changed, an exception that reaches the top.  A function without a \<open>return\<close> whose result nobody uses is
  modelled by its effects and taken to return: it fails only where the missing result is used
  (\<open>BroadcastToSecondaries\<close> and \<open>ConfirmMessage\<close> run off their end in every CONNECT, so that every
  statement about CONNECT rests on this).  Logging is left out, except where the logged expression
  can itself fail.  Sequence numbers are 64-bit words that wrap around, packet types and lengths
  16-bit words.  The operating system (\<open>Os\<close>: clock, \<open>sendto\<close>, address conversion), the curses
  library (\<open>Curses\<close>), the window library (\<open>Toolkit\<close>) and the widgets of a frame (\<open>Frame\<close>) are
  parameters; the results of \<open>socket\<close>, \<open>recvfrom\<close> and \<open>getenv\<close> are arguments.

  \<^bold>\<open>Threads.\<close>  Each case of \<open>MessageHandler\<close> exists twice: as a function on the server's state and
  as a sequence of pieces (\<open>handler_thread\<close>); a theorem says that the pieces executed alone are the
  function.  A piece is one locked operation of a manager, one access to the sequence counter (its
  increment is a load and a store), to the confirmation buffer, to a session pointer or to a list of
  followers, one round of a loop over a shared vector, or one datagram.  The loops that the program
  runs without a lock, over the profiles, the buffer and the addresses of a session, check in every
  round that their vector has not been changed since they started, and fail with \<open>DanglingIterator\<close>
  otherwise; a vector of addresses that has been changed and changed back is not noticed.  The worker's pieces may interleave with handlers that append to the
  queue, which the queue's mutex delays in the program; the appended notifications are the same.

  \<^bold>\<open>The network.\<close>  In \<open>Network\<close> every datagram that a replica has sent may reach its addressee at any
  later time, any number of times or never.  Every packet is handled as a whole before the next.
  Clients send the primary anything but confirmations,
  and talk to no secondary: the program checks neither, and a forged confirmation does defeat the
  agreement.  The counter of the primary does not wrap around within a run.

  \<^bold>\<open>Loops.\<close>  The endless loops of the threads are given by one round each and by step relations.
  Only the loop over the follower lines of the profile file is not bounded by its data: it is a
  partial function, and it is proved to return on every file.  No fuel is used.

  \<^bold>\<open>What is shown.\<close>  For each component its contract: packets and texts survive the way to their
  reader, and for which lengths; the session table refuses exactly the third address; a profile
  file is restored exactly; the confirmation buffer completes exactly when all numbers arrived.
  For the server that handles one packet at a time: from a start without a profile file, with a
  primary known, no well-formed packet makes a handler fail, in any run, and all it sends are
  well-formed packets; posts reach the queue once per follower; the worker delivers to every
  address, and no notification starves.  For several threads: under every interleaving of their
  pieces the limit of two addresses holds, and the only possible failures are the read of a session
  pointer that was not set and the use of an invalid iterator.  For the cluster: a client is
  accepted exactly when its three confirmations are in; in every run of the network, one handler at
  a time, an accepted user is known to every replica, and a connection can always be completed.  For
  the client: posts of at most 128 characters leave intact, notifications are shown once each and
  in the order of the queue exactly when none comes in a later round than one queued after it, the
  console reads no message out of range and draws its lines inside the frame, a session at the
  console sends exactly what was typed.  And for all together: a post reaches the screen of a
  follower (below).
  Theorems also record where the program fails: a restart with stored profiles, packets of an
  unknown type, short datagrams, the repeated ACCEPT, the refused connection that is accepted, fewer
  than three secondaries, a window that cannot be created, and the races of the threads: two profiles
  for one user, two requests under the same numbers, the read of an uninitialised pointer, and
  iterators that another thread has invalidated.
  Names of at most 380 and posts of at most 128 characters are assumed where notifications must fit
  into a packet (508 characters together); the clients of the program keep to the second bound.

  \<^bold>\<open>What is not modelled.\<close>  The destructor of the session manager and its debug printer, the
  unused records of \<open>Notification.hpp\<close>, the help texts printed by the client, colours and the code
  inside the window libraries (the calls to them are recorded, what they do is not modelled), data
  races inside one piece of a thread (two threads in the same container at once, two threads that
  write the profile file at once), the threads of the client against each other, the build files and the launch
  script.
\<close>

section \<open>From post to screen\<close>

lemma Client_Listen_notification:
  assumes "cl_isListening c" and "packet_wf n" and "ptype n = PACKET_NOTIFICATION"
    and "length pad1 = 6" and "length pad2 = 6"
  shows "\<exists>b'. Client_Listen_round os (Some (packet_bytes pad1 pad2 n)) (b, c) =
    Inr (b', c\<lparr>PacketList := PacketList c @ [n]\<rparr>)"
  using assms length_packet_bytes [OF assms(4,5,2)] packet_of_packet_bytes [OF assms(4,5,2), of "drop 544 b"]
  by (auto simp: Client_Listen_round_def Let_def dispatch_def)

lemma notify_one:
  assumes "NUL \<notin> set (pn_body n)" and "NUL \<notin> set (senderUsername n)"
    and "length (pn_body n) + length (senderUsername n) \<le> 508" and "delivers os (srv_socket s) x = (\<lambda>p. True)"
  shows "\<exists>p s'. res_fold (notify os n) [x] s = Inr s' \<and> sent s' = sent s @ [(recipient_of os x, p)] \<and>
    notificationQueue s' = notificationQueue s \<and> packet_wf p \<and> ptype p = PACKET_NOTIFICATION \<and>
    packet_text p = Inr (notification_text (pn_body n) (senderUsername n))"
proof -
  let ?t = "notification_text (pn_body n) (senderUsername n)"
  have nf: "NUL \<notin> set ?t" "length ?t < 512"
    using assms by (simp_all add: notification_text_NUL_free notification_text_length)
  obtain p where p: "MakeNotification (os_time os) (lastSeqn s + 1) (pn_body n) (senderUsername n) = Inr p"
    "packet_text p = Inr ?t" "ptype p = PACKET_NOTIFICATION" "packet_wf p"
    using Make_init [OF nf, of "os_time os" PACKET_NOTIFICATION "lastSeqn s + 1 + 1" "length (pn_body n)"]
    by (auto simp: MakeNotification_def Let_def)
  then show ?thesis using assms(4) by (simp add: notify_eq)
qed

text \<open>Two users, each connected from one address, and a network that resolves the author's address.\<close>

definition example_net :: Os where
  "example_net = example_os\<lparr>os_inet_ntoa := (\<lambda>_. ''10.0.0.1'')\<rparr>"

definition example_from :: sockaddr_in where
  "example_from = \<lparr>sin_port = htons 5000, sin_addr = 167772161\<rparr>"

definition example_one :: Server where
  "example_one = example_two\<lparr>sessionManager := \<lparr>sessions = [(''ana'', 0), (''bia'', 1)],
     sessionHeap = [\<lparr>sessionId = 1, userHandle = ''ana'', sockets = [example_client]\<rparr>,
                    \<lparr>sessionId = 1, userHandle = ''bia'', sockets = [\<lparr>address = ''10.0.0.2'', port = 5001\<rparr>]\<rparr>]\<rparr>\<rparr>"

lemma example_one_ok: "server_ok example_one"
proof -
  let ?a = "\<lparr>address = ''10.0.0.2'', port = 5002\<rparr>"
  have "sessionManager example_one = snd (EndSession ''bia'' ?a (sessionManager example_two))"
    by (simp add: example_one_def example_two_def EndSession_def map_find_def same_address_def Let_def)
  then show ?thesis
    using example_two_ok EndSession_store [of "profileManager example_two" "sessionManager example_two" "''bia''" ?a]
    by (simp add: server_ok_def server_inv_def example_one_def)
qed

text \<open>
  C1.  A post reaches the screen: a connected client posts a text of at most 128 characters; the
  server's listening thread decodes the datagram and starts a handler with exactly the packet that
  was sent; the handler queues a notification for the author's follower; a round of the worker
  sends it to the follower's address; the follower's client decodes it, and a round of its
  reordering loop hands \<open>@author:\<close>, a line feed and the text to the message handler.
\<close>

theorem post_reaches_follower:
  assumes "online os c" and "NUL \<notin> set t" and "length t \<le> 128"
    and "server_ok s" and "isListening s" and "notificationQueue s = []" and "length buffer = bufferSize"
    and "length pad1 = 6" and "length pad2 = 6"
    and "a = \<lparr>address = os_inet_ntoa os (sin_addr from), port = uint (ntohs (sin_port from))\<rparr>"
    and "GetUserNameByAddressAndIP a (sessionManager s) = Some u" and "NUL \<notin> set u" and "length u \<le> 380"
    and "GetProfileByName u (profileManager s) = Some q" and "GetFollowers q (profileManager s) = [f]"
    and "user_sockets f (profileManager s) (sessionManager s) = [x]"
    and "delivers os (srv_socket s) x = (\<lambda>p. True)"
    and "cl_isListening d" and "messageHandler d" and "PacketList d = []" and "std_sort sorter (seqn :: Packet \<Rightarrow> u64)"
  shows "\<exists>p buffer' s1 s2 s3 n b' d1.
    Post os t c = Inr (0, emitted os [p] c) \<and>
    Listen_round os (Some (from, packet_bytes pad1 pad2 p)) (buffer, s) = (buffer', s1) \<and>
    messageHandlerThreads s1 = messageHandlerThreads s @ [(p, a)] \<and>
    MessageHandler os p a s1 = Inr s2 \<and> Worker_round os s2 = Inr s3 \<and>
    sent s3 = sent s @ [(recipient_of os x, n)] \<and> notificationQueue s3 = [] \<and>
    Client_Listen_round os (Some (packet_bytes pad1 pad2 n)) (b, d) = Inr (b', d1) \<and>
    Reorder_round sorter d1 = Inr (d\<lparr>handled := handled d @ [(''@'' @ u @ '':'' @ [CHR 0x0A] @ t, Notification)]\<rparr>)"
proof -
  obtain p where p: "Post os t c = Inr (0, emitted os [p] c)" "packet_text p = Inr t" "ptype p = PACKET_SEND_CMD" "packet_wf p"
    using Post_online [OF assms(1-3)] by blast
  let ?s1 = "s\<lparr>messageHandlerThreads := messageHandlerThreads s @ [(p, a)]\<rparr>"
  obtain buffer' where L: "Listen_round os (Some (from, packet_bytes pad1 pad2 p)) (buffer, s) = (buffer', ?s1)"
    using Listen_packet [OF assms(5,7) p(4) assms(8,9), of os "from"] unfolding assms(10) by blast
  let ?n = "PendingNotification_new u t f"
  let ?s2 = "?s1\<lparr>notificationQueue := [?n]\<rparr>"
  have H: "MessageHandler os p a ?s1 = Inr ?s2"
    using handle_SEND_eq [of a ?s1 u q p t] assms(6,11,14,15) p(2,3) by (simp add: MessageHandler_def)
  have f: "GetSession f (profileManager s) \<noteq> Indeterminate"
    using assms(16) by (auto simp: user_sockets_def)
  have dl: "delivers os (srv_socket (?s2\<lparr>notificationQueue := []\<rparr>)) x = (\<lambda>p. True)" using assms(17) by simp
  have nt: "NUL \<notin> set (pn_body ?n)" "NUL \<notin> set (senderUsername ?n)"
    "length (pn_body ?n) + length (senderUsername ?n) \<le> 508"
    using assms(2,3,12,13) by (simp_all add: PendingNotification_new_def)
  obtain n s3 where N: "res_fold (notify os ?n) [x] (?s2\<lparr>notificationQueue := []\<rparr>) = Inr s3"
    "sent s3 = sent s @ [(recipient_of os x, n)]" "notificationQueue s3 = []" "packet_wf n"
    "ptype n = PACKET_NOTIFICATION" "packet_text n = Inr (notification_text t u)"
    using notify_one [OF nt dl] by (auto simp: PendingNotification_new_def)
  have W: "Worker_round os ?s2 = Inr s3"
    using Worker_round_connected [of ?s2 ?n "[]" os] f assms(16) N(1) by (simp add: PendingNotification_new_def)
  obtain b' where C: "Client_Listen_round os (Some (packet_bytes pad1 pad2 n)) (b, d) = Inr (b', d\<lparr>PacketList := [n]\<rparr>)"
    using Client_Listen_notification [OF assms(18) N(4,5) assms(8,9), of os b] assms(20) by auto
  have "sorter [n] = [n]"
    using std_sort.permutes [OF assms(21), of "[n]"] by (metis mset_single_iff_right mset.simps)
  then have R: "Reorder_round sorter (d\<lparr>PacketList := [n]\<rparr>) =
      Inr (d\<lparr>handled := handled d @ [(''@'' @ u @ '':'' @ [CHR 0x0A] @ t, Notification)]\<rparr>)"
    using assms(19,20) N(6) by (cases d) (simp add: Reorder_round_def deliver_def notification_text_def)
  show ?thesis
    by (intro exI conjI, rule p(1), rule L, simp, rule H, rule W, rule N(2), rule N(3), rule C, rule R)
qed

theorem post_reaches_follower_witness:
  "\<exists>p buffer' s1 s2 s3 n b' d1.
    Post example_net ''hi'' example_cl = Inr (0, emitted example_net [p] example_cl) \<and>
    Listen_round example_net (Some (example_from, packet_bytes (replicate 6 0) (replicate 6 0) p))
      (replicate 2048 0, example_one) = (buffer', s1) \<and>
    messageHandlerThreads s1 = messageHandlerThreads example_one @ [(p, example_client)] \<and>
    MessageHandler example_net p example_client s1 = Inr s2 \<and> Worker_round example_net s2 = Inr s3 \<and>
    sent s3 = sent example_one @ [(recipient_of example_net \<lparr>address = ''10.0.0.2'', port = 5001\<rparr>, n)] \<and>
    notificationQueue s3 = [] \<and>
    Client_Listen_round example_net (Some (packet_bytes (replicate 6 0) (replicate 6 0) n)) (replicate 544 0, example_cl) =
      Inr (b', d1) \<and>
    Reorder_round (sort_key seqn) d1 = Inr (example_cl\<lparr>handled := handled example_cl @
      [(''@'' @ ''ana'' @ '':'' @ [CHR 0x0A] @ ''hi'', Notification)]\<rparr>)"
proof (rule post_reaches_follower)
  show "online example_net example_cl" using example_cl_online by (simp add: online_def example_net_def example_os_def)
  show "server_ok example_one" by (rule example_one_ok)
  show "example_client = \<lparr>address = os_inet_ntoa example_net (sin_addr example_from), port = uint (ntohs (sin_port example_from))\<rparr>"
    by (simp add: example_net_def example_from_def)
  show "GetUserNameByAddressAndIP example_client (sessionManager example_one) = Some ''ana''"
    by (simp add: example_one_def GetUserNameByAddressAndIP_def same_address_def)
  show "GetProfileByName ''ana'' (profileManager example_one) = Some 0" "GetFollowers 0 (profileManager example_one) = [1]"
    by (simp_all add: example_one_def example_two_def GetProfileByName_def GetHandle_def GetFollowers_def)
  show "user_sockets 1 (profileManager example_one) (sessionManager example_one) = [\<lparr>address = ''10.0.0.2'', port = 5001\<rparr>]"
    by (simp add: user_sockets_def GetSession_def example_one_def example_two_def)
  show "delivers example_net (srv_socket example_one) \<lparr>address = ''10.0.0.2'', port = 5001\<rparr> = (\<lambda>p. True)"
    by (simp add: delivers_def example_net_def example_os_def example_one_def example_two_def example_server_def Bind_def
        Socket_new_def fun_eq_iff)
  show "std_sort (sort_key seqn) (seqn :: Packet \<Rightarrow> u64)" by (rule stable.std_sort_axioms)
qed (simp_all add: NUL_def example_one_def example_two_def example_server_def example_cl_def Client_new_def)

end
